(* ===== verification/Go_Prelude.thy ===== *)
theory Go_Prelude
  imports "HOL-Library.AList" "HOL-Library.Multiset" "HOL-Library.Sublist"
    "HOL-Library.List_Lexorder" "HOL-Library.Char_ord"
begin

text \<open>
  What the model of golintmu uses of the Go language and its standard library, and the
  lemmas every component shares.

  \<^item> Go maps are association lists with distinct keys (\<open>gomap\<close>): \<open>gm_get\<close> is the
    comma-ok lookup, \<open>gm_put\<close> the assignment \<open>m[k] = v\<close>, \<open>gm_del\<close> is \<open>delete(m, k)\<close>.
    The locale \<open>go_map\<close> states what the components rely on, and is interpreted on these
    operations.
  \<^item> A map of type \<open>map[K]bool\<close> in which the code only ever stores \<open>true\<close> is the list
    of its keys (\<open>set_add\<close>).
  \<^item> Go leaves the order of \<open>range\<close> over a map unspecified. Where that order can be
    observed, the loop runs over \<open>shuffle c ks\<close>: the numbers \<open>c\<close> stand for the choices of the
    runtime, every choice gives a permutation (\<open>mset_shuffle\<close>) and every permutation is
    given by some choice (\<open>shuffle_surj\<close>).
  \<^item> \<open>sort.Slice\<close> is not stable: \<open>sort_slice\<close> sorts a shuffled slice.
  \<^item> Strings are byte lists, compared bytewise as Go does.
\<close>

named_theorems gomap_simps
named_theorems shuffle_simps

section \<open>Go maps\<close>

type_synonym ('k, 'v) gomap = "('k \<times> 'v) list"

definition gm_get :: "('k, 'v) gomap \<Rightarrow> 'k \<Rightarrow> 'v option" where
  "gm_get m k = map_of m k"

definition gm_put :: "('k, 'v) gomap \<Rightarrow> 'k \<Rightarrow> 'v \<Rightarrow> ('k, 'v) gomap" where
  "gm_put m k v = AList.update k v m"

definition gm_del :: "('k, 'v) gomap \<Rightarrow> 'k \<Rightarrow> ('k, 'v) gomap" where
  "gm_del m k = AList.delete k m"

definition gm_keys :: "('k, 'v) gomap \<Rightarrow> 'k list" where
  "gm_keys m = map fst m"

definition gm_ok :: "('k, 'v) gomap \<Rightarrow> bool" where
  "gm_ok m = distinct (map fst m)"

text \<open>The zero value of a missing entry of slice type: \<open>m[k]\<close> on a map of slices.\<close>

definition gm_slice :: "('k, 'v list) gomap \<Rightarrow> 'k \<Rightarrow> 'v list" where
  "gm_slice m k = (case gm_get m k of None \<Rightarrow> [] | Some vs \<Rightarrow> vs)"

text \<open>\<open>m[k] = append(m[k], v)\<close>.\<close>

definition gm_append :: "('k, 'v list) gomap \<Rightarrow> 'k \<Rightarrow> 'v \<Rightarrow> ('k, 'v list) gomap" where
  "gm_append m k v = gm_put m k (gm_slice m k @ [v])"

definition set_add :: "'a list \<Rightarrow> 'a \<Rightarrow> 'a list" where
  "set_add s x = (if x \<in> set s then s else s @ [x])"

locale go_map =
  fixes get :: "'m \<Rightarrow> 'k \<Rightarrow> 'v option"
    and put :: "'m \<Rightarrow> 'k \<Rightarrow> 'v \<Rightarrow> 'm"
    and del :: "'m \<Rightarrow> 'k \<Rightarrow> 'm"
    and keys :: "'m \<Rightarrow> 'k list"
    and ok :: "'m \<Rightarrow> bool"
    and emp :: 'm
  assumes get_emp: "get emp k = None"
    and get_put: "get (put m k v) k' = (if k' = k then Some v else get m k')"
    and get_del: "get (del m k) k' = (if k' = k then None else get m k')"
    and keys_get: "k \<in> set (keys m) \<longleftrightarrow> get m k \<noteq> None"
    and ok_emp: "ok emp"
    and ok_put: "ok m \<Longrightarrow> ok (put m k v)"
    and ok_del: "ok m \<Longrightarrow> ok (del m k)"
    and ok_keys: "ok m \<Longrightarrow> distinct (keys m)"
begin

lemma keys_put: "set (keys (put m k v)) = insert k (set (keys m))"
  by (auto simp: keys_get get_put split: if_splits)

lemma keys_del: "set (keys (del m k)) = set (keys m) - {k}"
  by (auto simp: keys_get get_del split: if_splits)

lemma get_put_same: "get (put m k v) k = Some v"
  by (simp add: get_put)

text \<open>A loop that stores one entry per pair: the last pair of a key wins.\<close>

lemma get_fold_put:
  "get (fold (\<lambda>(k, v) m. put m k v) kvs m) k =
    (case map_of (rev kvs) k of None \<Rightarrow> get m k | Some v \<Rightarrow> Some v)"
proof (induction kvs arbitrary: m)
  case (Cons kv kvs)
  then show ?case
    by (cases kv) (auto simp: get_put map_add_def split: option.splits)
qed simp

lemma ok_fold_put: "ok m \<Longrightarrow> ok (fold (\<lambda>(k, v) m. put m k v) kvs m)"
  by (induction kvs arbitrary: m) (auto simp: ok_put)

text \<open>Two maps with the same lookups hold the same number of keys: what lets the code compare
  key sets by \<open>len\<close> and inclusion.\<close>

lemma length_keys_card: "ok m \<Longrightarrow> length (keys m) = card (set (keys m))"
  by (simp add: distinct_card ok_keys)

lemma same_keys_iff:
  assumes "ok m" and "ok m'"
  shows "length (keys m) = length (keys m') \<and> set (keys m) \<subseteq> set (keys m')
    \<longleftrightarrow> set (keys m) = set (keys m')"
proof
  assume "length (keys m) = length (keys m') \<and> set (keys m) \<subseteq> set (keys m')"
  then show "set (keys m) = set (keys m')"
    using assms by (intro card_subset_eq) (auto simp: length_keys_card)
next
  assume "set (keys m) = set (keys m')"
  then show "length (keys m) = length (keys m') \<and> set (keys m) \<subseteq> set (keys m')"
    using assms by (simp add: length_keys_card)
qed

end

lemma gm_get_put [simp, gomap_simps]:
  "gm_get (gm_put m k v) k' = (if k' = k then Some v else gm_get m k')"
  by (simp add: gm_get_def gm_put_def update_conv')

lemma gm_get_del [simp, gomap_simps]:
  "gm_get (gm_del m k) k' = (if k' = k then None else gm_get m k')"
  by (simp add: gm_get_def gm_del_def delete_conv')

lemma gm_get_empty [simp, gomap_simps]: "gm_get [] k = None"
  by (simp add: gm_get_def)

lemma gm_keys_get [gomap_simps]: "k \<in> set (gm_keys m) \<longleftrightarrow> gm_get m k \<noteq> None"
  by (force simp: gm_keys_def gm_get_def map_of_eq_None_iff)

lemma gm_ok_put [simp]: "gm_ok m \<Longrightarrow> gm_ok (gm_put m k v)"
  by (simp add: gm_ok_def gm_put_def distinct_update)

lemma gm_ok_del [simp]: "gm_ok m \<Longrightarrow> gm_ok (gm_del m k)"
  by (simp add: gm_ok_def gm_del_def distinct_delete)

lemma gm_ok_empty [simp]: "gm_ok []"
  by (simp add: gm_ok_def)

interpretation gm: go_map gm_get gm_put gm_del gm_keys gm_ok "[]"
  by unfold_locales (auto simp: gm_keys_get gm_ok_def gm_keys_def distinct_update gm_put_def
      gm_del_def distinct_delete update_conv' delete_conv' gm_get_def map_of_eq_None_iff)

lemma gm_slice_put [simp]: "gm_slice (gm_put m k v) k' = (if k' = k then v else gm_slice m k')"
  by (simp add: gm_slice_def)

lemma gm_slice_append [simp]:
  "gm_slice (gm_append m k v) k' = (if k' = k then gm_slice m k @ [v] else gm_slice m k')"
  by (simp add: gm_append_def)

lemma gm_slice_empty [simp]: "gm_slice [] k = []"
  by (simp add: gm_slice_def)

lemma gm_slice_mem: "v \<in> set (gm_slice m k) \<longleftrightarrow> (\<exists>vs. gm_get m k = Some vs \<and> v \<in> set vs)"
  by (cases "gm_get m k") (simp_all add: gm_slice_def)

lemma gm_ok_append [simp]: "gm_ok m \<Longrightarrow> gm_ok (gm_append m k v)"
  by (simp add: gm_append_def)

lemma gm_get_append:
  "gm_get (gm_append m k v) k' = (if k' = k then Some (gm_slice m k @ [v]) else gm_get m k')"
  by (simp add: gm_append_def)

lemma gm_get_Some_in: "gm_ok m \<Longrightarrow> gm_get m k = Some v \<longleftrightarrow> (k, v) \<in> set m"
  by (simp add: gm_get_def gm_ok_def)

lemma set_gm_keys: "set (gm_keys m) = fst ` set m"
  by (simp add: gm_keys_def)

lemma set_set_add [simp]: "set (set_add s x) = insert x (set s)"
  by (auto simp: set_add_def)

lemma distinct_set_add [simp]: "distinct (set_add s x) = distinct s"
  by (auto simp: set_add_def)

lemma set_fold_set_add [simp]: "set (fold (\<lambda>x s. set_add s x) xs s) = set xs \<union> set s"
  by (induction xs arbitrary: s) auto

lemma distinct_fold_set_add [simp]: "distinct (fold (\<lambda>x s. set_add s x) xs s) = distinct s"
  by (induction xs arbitrary: s) auto

lemma snd_set_enumerate: "snd ` set (enumerate n xs) = set xs"
  by (metis list.set_map map_snd_enumerate)

section \<open>Iteration order and sorting\<close>

function shuffle :: "(nat \<Rightarrow> nat) \<Rightarrow> 'a list \<Rightarrow> 'a list" where
  "shuffle c xs =
    (if xs = [] then []
     else let i = c 0 mod length xs
          in xs ! i # shuffle (\<lambda>n. c (Suc n)) (take i xs @ drop (Suc i) xs))"
  by pat_completeness auto
termination
proof (relation "measure (\<lambda>(c, xs). length xs)")
  fix c :: "nat \<Rightarrow> nat" and xs :: "'a list" and i
  assume "xs \<noteq> []" and "i = c 0 mod length xs"
  then have "i < length xs" by simp
  then show "(((\<lambda>n. c (Suc n)), take i xs @ drop (Suc i) xs), (c, xs))
      \<in> measure (\<lambda>(c, xs). length xs)"
    by simp
qed simp

declare shuffle.simps [simp del]

lemma shuffle_Nil [simp, shuffle_simps]: "shuffle c [] = []"
  by (simp add: shuffle.simps)

lemma mset_remove_nth:
  "i < length xs \<Longrightarrow> add_mset (xs ! i) (mset (take i xs @ drop (Suc i) xs)) = mset xs"
  by (metis id_take_nth_drop mset.simps(2) mset_append union_mset_add_mset_right)

lemma mset_shuffle [simp, shuffle_simps]: "mset (shuffle c xs) = mset xs"
proof (induction c xs rule: shuffle.induct)
  case (1 c xs)
  show ?case
  proof (cases "xs = []")
    case False
    then have "c 0 mod length xs < length xs" by simp
    from mset_remove_nth [OF this] "1.IH" [OF False refl] False show ?thesis
      by (simp add: shuffle.simps [of c xs] Let_def)
  qed simp
qed

lemma set_shuffle [simp, shuffle_simps]: "set (shuffle c xs) = set xs"
  by (metis mset_shuffle set_mset_mset)

lemma distinct_shuffle [simp, shuffle_simps]: "distinct (shuffle c xs) = distinct xs"
  by (metis mset_shuffle mset_eq_imp_distinct_iff)

lemma length_shuffle [simp, shuffle_simps]: "length (shuffle c xs) = length xs"
  by (metis mset_shuffle size_mset)

lemma shuffle_zero [simp]: "shuffle (\<lambda>_. 0) xs = xs"
proof (induction xs)
  case (Cons x xs)
  then show ?case by (simp add: shuffle.simps [of _ "x # xs"])
qed simp

text \<open>Every order of the keys is the result of some choice of the runtime.\<close>

lemma shuffle_surj: "mset ys = mset xs \<Longrightarrow> \<exists>c. shuffle c xs = ys"
proof (induction ys arbitrary: xs)
  case Nil
  then show ?case by simp
next
  case (Cons y ys)
  then have "y \<in> set xs" by (metis list.set_intros(1) set_mset_mset)
  then obtain i where i: "i < length xs" "xs ! i = y" by (auto simp: in_set_conv_nth)
  let ?r = "take i xs @ drop (Suc i) xs"
  have "mset ys = mset ?r"
    using mset_remove_nth [OF i(1)] Cons.prems i(2) by (metis add_mset_add_mset_same_iff mset.simps(2))
  from Cons.IH [OF this] obtain c where c: "shuffle c ?r = ys" by blast
  have ne: "xs \<noteq> []" using i(1) by auto
  have "shuffle (case_nat i c) xs = y # shuffle c ?r"
    using i ne by (subst shuffle.simps) (simp add: Let_def)
  with c show ?case by auto
qed

definition sort_slice :: "(nat \<Rightarrow> nat) \<Rightarrow> ('a \<Rightarrow> 'b::linorder) \<Rightarrow> 'a list \<Rightarrow> 'a list" where
  "sort_slice c f xs = sort_key f (shuffle c xs)"

lemma mset_sort_slice [simp, shuffle_simps]: "mset (sort_slice c f xs) = mset xs"
  by (simp add: sort_slice_def)

lemma set_sort_slice [simp, shuffle_simps]: "set (sort_slice c f xs) = set xs"
  by (simp add: sort_slice_def)

lemma length_sort_slice [simp, shuffle_simps]: "length (sort_slice c f xs) = length xs"
  by (simp add: sort_slice_def)

lemma distinct_sort_slice [simp, shuffle_simps]: "distinct (sort_slice c f xs) = distinct xs"
  by (simp add: sort_slice_def)

lemma sorted_sort_slice [simp]: "sorted (map f (sort_slice c f xs))"
  by (simp add: sort_slice_def)

text \<open>Without ties the sorted slice does not depend on the order it started from.\<close>

lemma sort_slice_unique: "inj_on f (set xs) \<Longrightarrow> sort_slice c f xs = sort_slice c' f xs"
  unfolding sort_slice_def by (rule sort_key_inj_key_eq) auto

end
