(* ===== verification/Go_Strings.thy ===== *)
theory Go_Strings
  imports Go_Prelude
begin

text \<open>
  The functions of Go's \<open>strings\<close>, \<open>fmt\<close> and \<open>path/filepath\<close> packages that golintmu calls,
  on byte strings: \<open>HasPrefix\<close>, \<open>Contains\<close>, \<open>TrimPrefix\<close>, \<open>TrimSpace\<close>, \<open>Join\<close>, \<open>filepath.Base\<close>
  and the \<open>%d\<close> verb on non-negative numbers. \<open>TrimSpace\<close> removes the UTF-8 encodings of every
  Unicode white space character.
\<close>

definition HasPrefix :: "string \<Rightarrow> string \<Rightarrow> bool" where
  "HasPrefix s p = prefix p s"

definition Contains :: "string \<Rightarrow> string \<Rightarrow> bool" where
  "Contains s t = sublist t s"

definition TrimPrefix :: "string \<Rightarrow> string \<Rightarrow> string" where
  "TrimPrefix s p = (if HasPrefix s p then drop (length p) s else s)"

definition white_space :: "string list" where
  "white_space =
    map (\<lambda>n. [char_of (n :: nat)]) [9, 10, 11, 12, 13, 32] @
    map (map (char_of :: nat \<Rightarrow> char))
      ([[0xC2, 0x85], [0xC2, 0xA0], [0xE1, 0x9A, 0x80]] @
       map (\<lambda>n. [0xE2, 0x80, n]) [0x80..<0x8B] @
       [[0xE2, 0x80, 0xA8], [0xE2, 0x80, 0xA9], [0xE2, 0x80, 0xAF], [0xE2, 0x81, 0x9F],
        [0xE3, 0x80, 0x80]])"

function trim_left :: "string list \<Rightarrow> string \<Rightarrow> string" where
  "trim_left ws s =
    (case List.find (\<lambda>w. w \<noteq> [] \<and> prefix w s) ws of
       None \<Rightarrow> s
     | Some w \<Rightarrow> trim_left ws (drop (length w) s))"
  by pat_completeness auto
termination
proof (relation "measure (\<lambda>(ws, s). length s)")
  fix ws :: "string list" and s w
  assume "List.find (\<lambda>w. w \<noteq> [] \<and> prefix w s) ws = Some w"
  then have "w \<noteq> [] \<and> prefix w s" by (auto simp: find_Some_iff)
  then show "((ws, drop (length w) s), (ws, s)) \<in> measure (\<lambda>(ws, s). length s)"
    by (auto dest: prefix_length_le simp: length_greater_0_conv [symmetric] simp del: length_greater_0_conv)
qed simp

declare trim_left.simps [simp del]

definition TrimSpace :: "string \<Rightarrow> string" where
  "TrimSpace s = rev (trim_left (map rev white_space) (rev (trim_left white_space s)))"

fun itoa :: "nat \<Rightarrow> string" where
  "itoa n = (if n < 10 then [char_of (48 + n)] else itoa (n div 10) @ [char_of (48 + n mod 10)])"

declare itoa.simps [simp del]

fun Join :: "string list \<Rightarrow> string \<Rightarrow> string" where
  "Join [] sep = []"
| "Join [s] sep = s"
| "Join (s # t # ss) sep = s @ sep @ Join (t # ss) sep"

text \<open>\<open>filepath.Base\<close> on a system whose separator is \<open>'/'\<close>.\<close>

definition Base :: "string \<Rightarrow> string" where
  "Base path =
    (if path = [] then ''.''
     else let p = rev (dropWhile (\<lambda>c. c = CHR ''/'') (rev path)) in
          if p = [] then ''/''
          else rev (takeWhile (\<lambda>c. c \<noteq> CHR ''/'') (rev p)))"

text \<open>The em dash of the diagnostics, \<open>U+2014\<close> in UTF-8.\<close>

definition em_dash :: string where
  "em_dash = map (char_of :: nat \<Rightarrow> char) [0xE2, 0x80, 0x94]"

lemma TrimPrefix_self: "TrimPrefix (p @ s) p = s"
  by (simp add: TrimPrefix_def HasPrefix_def)

lemma itoa_nonempty: "itoa n \<noteq> []"
  by (subst itoa.simps) simp

end
