(* ===== verification/Go_Program.thy ===== *)
theory Go_Program
  imports Go_Strings
begin

text \<open>
  The analysed program as golintmu reads it: Go types (\<open>go/types\<close>), SSA values, instructions,
  blocks and functions (\<open>golang.org/x/tools/go/ssa\<close>), and the syntax positions and comments
  (\<open>go/ast\<close>, \<open>go/token\<close>). These packages build the data and golintmu only reads it, so it is the
  input of the model: a record \<open>prog\<close> of object tables. A Go pointer (\<open>*types.Named\<close>,
  \<open>ssa.Value\<close>, \<open>*ssa.Function\<close>, \<open>*types.Package\<close>) is the index of its object, so pointer equality
  is equality of indices, and cyclic data (Phi nodes, recursive types) needs no special care.
  Answers that the SSA library computes (\<open>StaticCallee\<close>, \<open>IsInvoke\<close>, \<open>Dominates\<close>) are fields.
\<close>

section \<open>Positions\<close>

text \<open>\<open>token.Pos\<close>: 0 is \<open>token.NoPos\<close>.\<close>

type_synonym pos = nat

definition NoPos :: pos where
  "NoPos = 0"

definition IsValid :: "pos \<Rightarrow> bool" where
  "IsValid p = (p \<noteq> NoPos)"

record position =
  Filename :: string
  Line :: nat
  Column :: nat

section \<open>Types\<close>

type_synonym named = nat
type_synonym pkg = nat
type_synonym val = nat
type_synonym func = nat

datatype gotype =
    Named named
  | Pointer gotype
  | Struct "gofield list"
  | Alias gotype
  | OtherType nat
and gofield =
  GoField (fieldName: string) (fieldType: gotype) (fieldAnonymous: bool) (fieldExported: bool)
    (fieldPos: pos)

text \<open>A defined type: its type name object (its identity \<open>objIdent\<close>, which the instances of a generic
  type share, and what the object knows), its underlying type, and the class of defined types that
  \<open>types.Identical\<close> identifies with it (two instances of a generic type with the same arguments may
  be two objects).\<close>

record named_info =
  objIdent :: nat
  objName :: string
  objPkg :: "pkg option"
  objExported :: bool
  underlyingType :: gotype
  identClass :: nat

datatype scope_obj = TypeName gotype | OtherObj

record package_info =
  pkgPath :: string
  pkgImports :: "pkg list"
  pkgScope :: "(string, scope_obj) gomap"

section \<open>SSA\<close>

datatype unop_token = MUL | OtherUnOp

datatype value_kind =
    FieldAddr val nat
  | Phi "val list"
  | UnOp unop_token val
  | Alloc bool
  | Function func
  | MakeClosure val
  | OtherValue

record ssa_value =
  vKind :: value_kind
  vType :: gotype

text \<open>\<open>ssa.CallCommon\<close>: \<open>ccMethod\<close> is the name of \<open>Method\<close>, \<open>None\<close> when it is nil.\<close>

record call_common =
  IsInvoke :: bool
  ccMethod :: "string option"
  ccValue :: val
  StaticCallee :: "func option"
  Args :: "val list"

datatype ssa_instr =
    ICall pos call_common
  | IDefer pos call_common
  | IGo pos call_common
  | IReturn pos
  | IStore pos val val
  | IUnOp pos val
  | IMapUpdate pos val
  | IPhi pos
  | IOther pos

fun instrPos :: "ssa_instr \<Rightarrow> pos" where
  "instrPos (ICall p c) = p"
| "instrPos (IDefer p c) = p"
| "instrPos (IGo p c) = p"
| "instrPos (IReturn p) = p"
| "instrPos (IStore p a v) = p"
| "instrPos (IUnOp p x) = p"
| "instrPos (IMapUpdate p v) = p"
| "instrPos (IPhi p) = p"
| "instrPos (IOther p) = p"

record basic_block =
  Instrs :: "ssa_instr list"
  Succs :: "nat list"
  Preds :: "nat list"

text \<open>The object of a function (\<open>fn.Object()\<close>): its identity, its package and whether it is exported.\<close>

record func_obj =
  foIdent :: nat
  foPkg :: "pkg option"
  foExported :: bool

record ssa_func =
  fnName :: string
  Blocks :: "basic_block list"
  sigRecv :: "gotype option"
  sigParams :: "gotype list"
  sigResults :: "gotype list"
  fnPos :: pos
  fnObject :: "func_obj option"
  fnPackage :: "pkg option"
  Dominates :: "nat \<Rightarrow> nat \<Rightarrow> bool"

record prog =
  namedTab :: "named_info list"
  pkgTab :: "package_info list"
  valTab :: "ssa_value list"
  funcTab :: "ssa_func list"

section \<open>Syntax\<close>

record func_decl =
  fdPos :: pos
  fdNamePos :: pos
  fdBodyEnd :: "pos option"

datatype decl = FuncDecl func_decl | OtherDecl

record ast_file =
  Decls :: "decl list"
  Comments :: "(pos \<times> string) list list"

section \<open>Reading the tables\<close>

text \<open>An index outside its table is no object of the program: no code reaches the defaults below
  on data the libraries built.\<close>

definition named_at :: "prog \<Rightarrow> named \<Rightarrow> named_info" where
  "named_at P n = (if n < length (namedTab P) then namedTab P ! n
    else \<lparr>objIdent = n, objName = [], objPkg = None, objExported = False, underlyingType = OtherType 0,
      identClass = n\<rparr>)"

definition pkg_at :: "prog \<Rightarrow> pkg \<Rightarrow> package_info" where
  "pkg_at P p = (if p < length (pkgTab P) then pkgTab P ! p
    else \<lparr>pkgPath = [], pkgImports = [], pkgScope = []\<rparr>)"

definition val_at :: "prog \<Rightarrow> val \<Rightarrow> ssa_value" where
  "val_at P v = (if v < length (valTab P) then valTab P ! v
    else \<lparr>vKind = OtherValue, vType = OtherType 0\<rparr>)"

definition func_at :: "prog \<Rightarrow> func \<Rightarrow> ssa_func" where
  "func_at P f = (if f < length (funcTab P) then funcTab P ! f
    else \<lparr>fnName = [], Blocks = [], sigRecv = None, sigParams = [], sigResults = [], fnPos = NoPos,
      fnObject = None, fnPackage = None, Dominates = (\<lambda>_ _. False)\<rparr>)"

abbreviation kind_of :: "prog \<Rightarrow> val \<Rightarrow> value_kind" where
  "kind_of P v \<equiv> vKind (val_at P v)"

abbreviation type_of :: "prog \<Rightarrow> val \<Rightarrow> gotype" where
  "type_of P v \<equiv> vType (val_at P v)"

abbreviation obj_pkg :: "prog \<Rightarrow> named \<Rightarrow> pkg option" where
  "obj_pkg P n \<equiv> objPkg (named_at P n)"

text \<open>\<open>t.Underlying()\<close> and the type assertions \<open>t.(*types.Named)\<close>, \<open>t.(*types.Pointer)\<close>,
  \<open>t.(*types.Struct)\<close>. An alias has the underlying type of what it stands for but is no
  \<open>*types.Named\<close> itself.\<close>

fun Underlying :: "prog \<Rightarrow> gotype \<Rightarrow> gotype" where
  "Underlying P (Named n) = underlyingType (named_at P n)"
| "Underlying P (Alias t) = Underlying P t"
| "Underlying P t = t"

fun as_named :: "gotype \<Rightarrow> named option" where
  "as_named (Named n) = Some n"
| "as_named t = None"

fun as_pointer :: "gotype \<Rightarrow> gotype option" where
  "as_pointer (Pointer t) = Some t"
| "as_pointer t = None"

fun as_struct :: "gotype \<Rightarrow> gofield list option" where
  "as_struct (Struct fs) = Some fs"
| "as_struct t = None"

text \<open>\<open>types.Identical(t, n)\<close> for a defined type \<open>n\<close>: aliases are resolved, and only a defined type
  of the same class is identical to it.\<close>

fun Unalias :: "gotype \<Rightarrow> gotype" where
  "Unalias (Alias t) = Unalias t"
| "Unalias t = t"

definition IdenticalNamed :: "prog \<Rightarrow> gotype \<Rightarrow> named \<Rightarrow> bool" where
  "IdenticalNamed P t n = (case as_named (Unalias t) of
     None \<Rightarrow> False
   | Some m \<Rightarrow> identClass (named_at P m) = identClass (named_at P n))"

lemma kind_of_in_table: "kind_of P v \<noteq> OtherValue \<Longrightarrow> v < length (valTab P)"
  by (auto simp: val_at_def split: if_splits)

lemma as_named_Some [simp]: "as_named t = Some n \<longleftrightarrow> t = Named n"
  by (cases t) auto

lemma as_pointer_Some [simp]: "as_pointer t = Some u \<longleftrightarrow> t = Pointer u"
  by (cases t) auto

lemma as_struct_Some [simp]: "as_struct t = Some fs \<longleftrightarrow> t = Struct fs"
  by (cases t) auto

end
