(* ===== verification/Lock_State.thy ===== *)
theory Lock_State
  imports Go_Program
begin

text \<open>
  \<open>pkg/analyzer/lockstate.go\<close>: which locks are held at a program point. \<open>lockState\<close> has the two
  maps of the source; the deferred unlocks are a \<open>map[lockRef]bool\<close> in which only \<open>true\<close> is
  stored, so a list of keys. The operations follow the source; \<open>diff\<close> takes the runtime's
  choices of iteration order (\<open>c\<close>), which its sort does not hide when two locks of different
  instances have the same field index.

  The well-formedness invariant \<open>ls_ok\<close> holds of the empty state and is kept by every operation.
  \<open>ls_le\<close> compares the two key sets; \<open>intersect\<close> is the greatest lower bound for it up to the lock
  modes, and \<open>equalHeld\<close> decides its equivalence.
\<close>

named_theorems lockstate_simps

section \<open>Data and operations\<close>

datatype lockRefKind = fieldLock

record lockRef =
  lr_kind :: lockRefKind
  lr_base :: val
  lr_fieldIndex :: nat

record heldLock =
  hl_ref :: lockRef
  hl_exclusive :: bool
  hl_pos :: pos

record lockState =
  held :: "(lockRef, heldLock) gomap"
  deferredUnlocks :: "lockRef list"

definition newLockState :: lockState where
  "newLockState = \<lparr>held = [], deferredUnlocks = []\<rparr>"

definition lock :: "lockState \<Rightarrow> lockRef \<Rightarrow> bool \<Rightarrow> pos \<Rightarrow> lockState" where
  "lock ls ref exclusive p =
    ls\<lparr>held := gm_put (held ls) ref \<lparr>hl_ref = ref, hl_exclusive = exclusive, hl_pos = p\<rparr>\<rparr>"

definition unlock :: "lockState \<Rightarrow> lockRef \<Rightarrow> lockState" where
  "unlock ls ref = ls\<lparr>held := gm_del (held ls) ref\<rparr>"

definition fork :: "lockState \<Rightarrow> lockState" where
  "fork ls =
    \<lparr>held = fold (\<lambda>(k, v) m. gm_put m k v) (held ls) [],
     deferredUnlocks = fold (\<lambda>k s. set_add s k) (deferredUnlocks ls) []\<rparr>"

definition equalHeld :: "lockState \<Rightarrow> lockState \<Rightarrow> bool" where
  "equalHeld ls other =
    (if length (held ls) \<noteq> length (held other) then False
     else if list_ex (\<lambda>k. gm_get (held other) k = None) (gm_keys (held ls)) then False
     else if length (deferredUnlocks ls) \<noteq> length (deferredUnlocks other) then False
     else if list_ex (\<lambda>k. k \<notin> set (deferredUnlocks other)) (deferredUnlocks ls) then False
     else True)"

definition diff :: "(nat \<Rightarrow> nat \<Rightarrow> nat) \<Rightarrow> lockState \<Rightarrow> lockState \<Rightarrow> lockRef list \<times> lockRef list" where
  "diff c ls other =
    (let onlyInSelf = filter (\<lambda>k. gm_get (held other) k = None) (shuffle (c 0) (gm_keys (held ls)));
         onlyInOther = filter (\<lambda>k. gm_get (held ls) k = None) (shuffle (c 1) (gm_keys (held other)))
     in (sort_slice (c 2) lr_fieldIndex onlyInSelf, sort_slice (c 3) lr_fieldIndex onlyInOther))"

definition intersect :: "lockState \<Rightarrow> lockState \<Rightarrow> lockState" where
  "intersect ls other =
    \<lparr>held = fold (\<lambda>(k, v) m.
        case gm_get (held other) k of
          None \<Rightarrow> m
        | Some otherHeld \<Rightarrow>
            if hl_exclusive v = hl_exclusive otherHeld then gm_put m k v else m)
        (held ls) (held newLockState),
     deferredUnlocks = fold (\<lambda>k s. if k \<in> set (deferredUnlocks other) then set_add s k else s)
        (deferredUnlocks ls) (deferredUnlocks newLockState)\<rparr>"

definition deferUnlock :: "lockState \<Rightarrow> lockRef \<Rightarrow> lockState" where
  "deferUnlock ls ref = ls\<lparr>deferredUnlocks := set_add (deferredUnlocks ls) ref\<rparr>"

section \<open>The invariant\<close>

definition ls_ok :: "lockState \<Rightarrow> bool" where
  "ls_ok ls \<longleftrightarrow> gm_ok (held ls) \<and> distinct (deferredUnlocks ls) \<and>
    (\<forall>k h. gm_get (held ls) k = Some h \<longrightarrow> hl_ref h = k)"

definition held_keys :: "lockState \<Rightarrow> lockRef set" where
  "held_keys ls = set (gm_keys (held ls))"

definition ls_le :: "lockState \<Rightarrow> lockState \<Rightarrow> bool" where
  "ls_le a b \<longleftrightarrow> held_keys a \<subseteq> held_keys b \<and> set (deferredUnlocks a) \<subseteq> set (deferredUnlocks b)"

lemma held_keys_iff: "k \<in> held_keys ls \<longleftrightarrow> gm_get (held ls) k \<noteq> None"
  by (simp add: held_keys_def gm_keys_get)

lemma ls_ok_new [simp]: "ls_ok newLockState"
  by (simp add: ls_ok_def newLockState_def)

lemma ls_ok_lock [simp]: "ls_ok ls \<Longrightarrow> ls_ok (lock ls ref e p)"
  by (auto simp: ls_ok_def lock_def)

lemma ls_ok_unlock [simp]: "ls_ok ls \<Longrightarrow> ls_ok (unlock ls ref)"
  by (auto simp: ls_ok_def unlock_def split: if_splits)

lemma ls_ok_deferUnlock [simp]: "ls_ok ls \<Longrightarrow> ls_ok (deferUnlock ls ref)"
  by (auto simp: ls_ok_def deferUnlock_def)

text \<open>Both loops of \<open>intersect\<close> keep a part of their source map.\<close>

lemma fold_put_filter:
  "fold (\<lambda>(k, v) m. if q k v then gm_put m k v else m) kvs m =
    fold (\<lambda>(k, v) m. gm_put m k v) (filter (\<lambda>(k, v). q k v) kvs) m"
  by (induction kvs arbitrary: m) auto

lemma fold_put_append:
  "distinct (map fst (m @ kvs)) \<Longrightarrow> fold (\<lambda>(k, v) m. gm_put m k v) kvs m = m @ kvs"
proof (induction kvs arbitrary: m)
  case (Cons kv kvs)
  obtain k v where kv: "kv = (k, v)" by (cases kv)
  with Cons.prems have "k \<notin> fst ` set m" by auto
  then have "gm_put m k v = m @ [(k, v)]"
    unfolding gm_put_def by (induction m) auto
  with Cons kv show ?case by simp
qed simp

lemma fold_put_rebuild:
  "gm_ok m \<Longrightarrow> fold (\<lambda>(k, v) m. gm_put m k v) (filter q m) [] = filter q m"
  by (subst fold_put_append) (auto simp: gm_ok_def distinct_map_filter)

lemma fold_add_append: "distinct (s @ xs) \<Longrightarrow> fold (\<lambda>k s. set_add s k) xs s = s @ xs"
  by (induction xs arbitrary: s) (auto simp: set_add_def)

lemma fold_add_filter:
  "fold (\<lambda>k s. if q k then set_add s k else s) xs s = fold (\<lambda>k s. set_add s k) (filter q xs) s"
  by (induction xs arbitrary: s) auto

lemma fork_id [simp]: "ls_ok ls \<Longrightarrow> fork ls = ls"
  using fold_put_append [of "[]" "held ls"] fold_add_append [of "[]" "deferredUnlocks ls"]
  by (simp add: fork_def ls_ok_def gm_ok_def)

definition same_mode :: "lockState \<Rightarrow> lockRef \<Rightarrow> heldLock \<Rightarrow> bool" where
  "same_mode other k v = (case gm_get (held other) k of
     None \<Rightarrow> False | Some h \<Rightarrow> hl_exclusive v = hl_exclusive h)"

lemma held_intersect_fold:
  "held (intersect ls other) =
    fold (\<lambda>(k, v) m. gm_put m k v) (filter (\<lambda>(k, v). same_mode other k v) (held ls)) []"
proof -
  have "(\<lambda>(k, v) m. case gm_get (held other) k of None \<Rightarrow> m
        | Some h \<Rightarrow> if hl_exclusive v = hl_exclusive h then gm_put m k v else m) =
      (\<lambda>(k, v) m. if same_mode other k v then gm_put m k v else m)"
    by (auto simp: fun_eq_iff same_mode_def split: option.splits)
  then show ?thesis
    by (simp add: intersect_def newLockState_def fold_put_filter)
qed

lemma deferred_intersect_fold:
  "deferredUnlocks (intersect ls other) =
    fold (\<lambda>k s. set_add s k) (filter (\<lambda>k. k \<in> set (deferredUnlocks other)) (deferredUnlocks ls)) []"
  by (simp add: intersect_def newLockState_def fold_add_filter)

lemma held_intersect:
  "ls_ok ls \<Longrightarrow> held (intersect ls other) = filter (\<lambda>(k, v). same_mode other k v) (held ls)"
  by (simp add: held_intersect_fold ls_ok_def fold_put_rebuild)

lemma deferred_intersect:
  "ls_ok ls \<Longrightarrow> deferredUnlocks (intersect ls other) =
    filter (\<lambda>k. k \<in> set (deferredUnlocks other)) (deferredUnlocks ls)"
  by (simp add: deferred_intersect_fold fold_add_append ls_ok_def)

lemma gm_get_filter:
  "gm_ok m \<Longrightarrow> gm_get (filter (\<lambda>(k, v). q k v) m) k =
    (case gm_get m k of None \<Rightarrow> None | Some v \<Rightarrow> if q k v then Some v else None)"
  unfolding gm_get_def gm_ok_def
  by (induction m) (auto simp: map_of_eq_None_iff image_iff split: option.splits)

lemma get_intersect:
  assumes "ls_ok ls"
  shows "gm_get (held (intersect ls other)) k = (case gm_get (held ls) k of
      None \<Rightarrow> None | Some v \<Rightarrow> if same_mode other k v then Some v else None)"
  using assms by (simp add: held_intersect gm_get_filter ls_ok_def)

lemma ls_ok_intersect [simp]: "ls_ok ls \<Longrightarrow> ls_ok (intersect ls other)"
proof -
  assume ok: "ls_ok ls"
  then have "gm_ok (held (intersect ls other))" "distinct (deferredUnlocks (intersect ls other))"
    by (auto simp: held_intersect deferred_intersect ls_ok_def gm_ok_def distinct_map_filter)
  moreover have "hl_ref h = k" if "gm_get (held (intersect ls other)) k = Some h" for k h
    using that ok by (auto simp: get_intersect ls_ok_def split: option.splits if_splits)
  ultimately show ?thesis by (simp add: ls_ok_def)
qed

section \<open>Order\<close>

lemma ls_le_refl [simp]: "ls_le a a"
  by (simp add: ls_le_def)

lemma ls_le_trans [trans]: "ls_le a b \<Longrightarrow> ls_le b c \<Longrightarrow> ls_le a c"
  by (auto simp: ls_le_def)

lemma ls_le_new [simp]: "ls_le newLockState a"
  by (simp add: ls_le_def newLockState_def held_keys_def gm_keys_def)

lemma held_keys_lock: "held_keys (lock ls ref e p) = insert ref (held_keys ls)"
  by (auto simp: held_keys_iff lock_def split: if_splits)

lemma held_keys_unlock: "held_keys (unlock ls ref) = held_keys ls - {ref}"
  by (auto simp: held_keys_iff unlock_def split: if_splits)

lemma held_keys_deferUnlock [simp]: "held_keys (deferUnlock ls ref) = held_keys ls"
  by (simp add: held_keys_def deferUnlock_def)

lemma held_lock [simp]: "deferredUnlocks (lock ls ref e p) = deferredUnlocks ls"
  "deferredUnlocks (unlock ls ref) = deferredUnlocks ls"
  "held (deferUnlock ls ref) = held ls"
  by (simp_all add: lock_def unlock_def deferUnlock_def)

lemma ls_le_lock: "ls_le a b \<Longrightarrow> ls_le (lock a r e p) (lock b r e' p')"
  by (auto simp: ls_le_def held_keys_lock)

lemma ls_le_unlock: "ls_le a b \<Longrightarrow> ls_le (unlock a r) (unlock b r)"
  by (auto simp: ls_le_def held_keys_unlock)

lemma ls_le_deferUnlock: "ls_le a b \<Longrightarrow> ls_le (deferUnlock a r) (deferUnlock b r)"
  by (auto simp: ls_le_def deferUnlock_def held_keys_def)

lemmas ls_le_mono [lockstate_simps] = ls_le_lock ls_le_unlock ls_le_deferUnlock

lemma intersect_le1: "ls_le (intersect a b) a"
  by (auto simp: ls_le_def held_keys_def held_intersect_fold deferred_intersect_fold gm_keys_get
      gm.get_fold_put split: option.splits dest!: map_of_SomeD)
    (auto simp: gm_get_def dest!: weak_map_of_SomeI)

lemma intersect_le2: "ls_ok a \<Longrightarrow> ls_le (intersect a b) b"
  by (auto simp: ls_le_def held_keys_iff get_intersect deferred_intersect same_mode_def
      split: option.splits if_splits)

text \<open>Comparing lengths and one inclusion decides equality of the key sets: the maps have no
  duplicate keys.\<close>

lemma equalHeld_def':
  "equalHeld a b \<longleftrightarrow> length (held a) = length (held b) \<and> held_keys a \<subseteq> held_keys b \<and>
    length (deferredUnlocks a) = length (deferredUnlocks b) \<and>
    set (deferredUnlocks a) \<subseteq> set (deferredUnlocks b)"
  by (auto simp: equalHeld_def list_ex_iff held_keys_iff held_keys_def gm_keys_get)

lemma equalHeld_iff:
  assumes "ls_ok a" and "ls_ok b"
  shows "equalHeld a b \<longleftrightarrow> ls_le a b \<and> ls_le b a"
proof -
  have "length (held a) = length (gm_keys (held a))" "length (held b) = length (gm_keys (held b))"
    by (simp_all add: gm_keys_def)
  then have 1: "length (held a) = length (held b) \<and> held_keys a \<subseteq> held_keys b
      \<longleftrightarrow> held_keys a = held_keys b"
    using gm.same_keys_iff [of "held a" "held b"] assms by (simp add: ls_ok_def held_keys_def)
  have 2: "length (deferredUnlocks a) = length (deferredUnlocks b) \<and>
      set (deferredUnlocks a) \<subseteq> set (deferredUnlocks b)
      \<longleftrightarrow> set (deferredUnlocks a) = set (deferredUnlocks b)"
    using assms by (auto simp: ls_ok_def distinct_card [symmetric] dest: card_subset_eq [rotated])
  show ?thesis
    unfolding equalHeld_def' ls_le_def using 1 2 by blast
qed

text \<open>The size of a state bounds how often a block of a control-flow graph is walked again.\<close>

definition ls_size :: "lockState \<Rightarrow> nat" where
  "ls_size ls = length (held ls) + length (deferredUnlocks ls)"

lemma length_gm_put: "length (gm_put m k v) \<le> Suc (length m)"
  unfolding gm_put_def by (induction m) auto

lemma length_fold_put: "length (fold (\<lambda>(k, v) m. gm_put m k v) kvs m) \<le> length m + length kvs"
proof (induction kvs arbitrary: m)
  case (Cons kv kvs)
  obtain k v where "kv = (k, v)" by (cases kv)
  then show ?case using Cons [of "gm_put m k v"] length_gm_put [of m k v] by simp
qed simp

lemma length_fold_add: "length (fold (\<lambda>k s. set_add s k) xs s) \<le> length s + length xs"
proof (induction xs arbitrary: s)
  case (Cons x xs)
  have "length (set_add s x) \<le> Suc (length s)" by (simp add: set_add_def)
  then show ?case using Cons [of "set_add s x"] by simp
qed simp

lemma length_intersect:
  "length (held (intersect a b)) \<le> length (held a)"
  "length (deferredUnlocks (intersect a b)) \<le> length (deferredUnlocks a)"
proof -
  let ?h = "filter (\<lambda>(k, v). same_mode b k v) (held a)"
    and ?d = "filter (\<lambda>k. k \<in> set (deferredUnlocks b)) (deferredUnlocks a)"
  have "length (held (intersect a b)) \<le> length ?h"
    using length_fold_put [of ?h "[]"] unfolding held_intersect_fold by simp
  also have "\<dots> \<le> length (held a)" by (rule length_filter_le)
  finally show "length (held (intersect a b)) \<le> length (held a)" .
  have "length (deferredUnlocks (intersect a b)) \<le> length ?d"
    using length_fold_add [of ?d "[]"] unfolding deferred_intersect_fold by simp
  also have "\<dots> \<le> length (deferredUnlocks a)" by (rule length_filter_le)
  finally show "length (deferredUnlocks (intersect a b)) \<le> length (deferredUnlocks a)" .
qed

text \<open>When the merged state differs from the previous one it is strictly smaller.\<close>

lemma intersect_shrinks:
  "\<not> equalHeld (intersect a b) a \<Longrightarrow> ls_size (intersect a b) < ls_size a"
  using length_intersect [of a b] intersect_le1 [of a b]
  by (auto simp: equalHeld_def' ls_size_def ls_le_def)

end
