(* ===== verification/Resolver.thy ===== *)
theory Resolver
  imports Lock_State
begin

text \<open>
  \<open>pkg/analyzer/resolver.go\<close>: tracing an SSA value back to the lock or the struct field it denotes.
  The visited set of \<open>unwrapSSAValueVisited\<close> is shared by the whole resolution, as in the source,
  so both functions return it. The recursion stops because every Phi is entered at most once.
\<close>

section \<open>Phi nodes\<close>

definition phi_edges :: "prog \<Rightarrow> val \<Rightarrow> val list option" where
  "phi_edges P v = (case kind_of P v of Phi es \<Rightarrow> Some es | _ \<Rightarrow> None)"

definition Edges :: "prog \<Rightarrow> val \<Rightarrow> val list" where
  "Edges P phi = (case phi_edges P phi of Some es \<Rightarrow> es | None \<Rightarrow> [])"

text \<open>\<open>phi_loop\<close> is the loop of \<open>resolvePhiIfUniform\<close> over the edges, with its variable
  \<open>unique\<close>.\<close>

function (sequential)
  unwrapSSAValueVisited :: "prog \<Rightarrow> val \<Rightarrow> val list \<Rightarrow> val \<times> val list" and
  resolvePhiIfUniform :: "prog \<Rightarrow> val \<Rightarrow> val list \<Rightarrow> val option \<times> val list" and
  phi_loop :: "prog \<Rightarrow> val list \<Rightarrow> val option \<Rightarrow> val list \<Rightarrow> val option \<times> val list"
where
  "unwrapSSAValueVisited P v visited =
    (case phi_edges P v of
       None \<Rightarrow> (v, visited)
     | Some es \<Rightarrow>
         (case resolvePhiIfUniform P v visited of
            (Some resolved, visited') \<Rightarrow> unwrapSSAValueVisited P resolved visited'
          | (None, visited') \<Rightarrow> (v, visited')))"
| "resolvePhiIfUniform P phi visited =
    (if phi \<in> set visited then (None, visited)
     else phi_loop P (Edges P phi) None (phi # visited))"
| "phi_loop P [] unique visited = (unique, visited)"
| "phi_loop P (e # es) unique visited =
    (case unwrapSSAValueVisited P e visited of
       (edge, visited') \<Rightarrow>
         (case unique of
            None \<Rightarrow> phi_loop P es (Some edge) visited'
          | Some u \<Rightarrow> if u \<noteq> edge then (None, visited') else phi_loop P es (Some u) visited'))"
  by pat_completeness auto

text \<open>The visited set only grows, and a resolved Phi is in it: shown on the domain of the
  functions, where it is what the termination proof needs.\<close>

lemma visited_grows:
  "unwrapSSAValueVisited_resolvePhiIfUniform_phi_loop_dom (Inl (P, v, vis)) \<Longrightarrow>
    set vis \<subseteq> set (snd (unwrapSSAValueVisited P v vis))"
  "unwrapSSAValueVisited_resolvePhiIfUniform_phi_loop_dom (Inr (Inl (P, phi, vis))) \<Longrightarrow>
    set vis \<subseteq> set (snd (resolvePhiIfUniform P phi vis)) \<and>
    (fst (resolvePhiIfUniform P phi vis) \<noteq> None \<longrightarrow>
       phi \<notin> set vis \<and> phi \<in> set (snd (resolvePhiIfUniform P phi vis)))"
  "unwrapSSAValueVisited_resolvePhiIfUniform_phi_loop_dom (Inr (Inr (P, es, unique, vis))) \<Longrightarrow>
    set vis \<subseteq> set (snd (phi_loop P es unique vis))"
proof (induction P v vis and P phi vis and P es unique vis
    rule: unwrapSSAValueVisited_resolvePhiIfUniform_phi_loop.pinduct)
  case (1 P v visited)
  then show ?case
    by (auto simp: unwrapSSAValueVisited.psimps split: option.splits prod.splits)
      (metis (no_types, lifting) prod.collapse snd_conv subset_eq)+
next
  case (2 P phi visited)
  then show ?case by (auto simp: resolvePhiIfUniform.psimps)
next
  case (3 P unique visited)
  then show ?case by (simp add: phi_loop.psimps)
next
  case (4 P e es unique visited)
  then show ?case
    by (auto simp: phi_loop.psimps split: option.splits prod.splits if_splits) blast+
qed

definition open_vals :: "prog \<Rightarrow> val list \<Rightarrow> nat" where
  "open_vals P visited = card ({..<length (valTab P)} - set visited)"

lemma open_vals_le: "set vis \<subseteq> set vis' \<Longrightarrow> open_vals P vis' \<le> open_vals P vis"
  unfolding open_vals_def by (rule card_mono) auto

lemma open_vals_less:
  "set vis \<subseteq> set vis' \<Longrightarrow> v \<in> set vis' \<Longrightarrow> v \<notin> set vis \<Longrightarrow> kind_of P v \<noteq> OtherValue \<Longrightarrow>
    open_vals P vis' < open_vals P vis"
  unfolding open_vals_def
  by (rule psubset_card_mono) (auto dest: kind_of_in_table)

lemma unwrap_open_vals:
  assumes "unwrapSSAValueVisited_resolvePhiIfUniform_phi_loop_dom (Inl (P, v, vis))"
    and "x = unwrapSSAValueVisited P v vis" and "(u, vis') = x"
  shows "open_vals P vis' \<le> open_vals P vis"
  using visited_grows(1) [OF assms(1)] assms(2,3) by (metis open_vals_le snd_conv)

lemma phi_edges_kind: "phi_edges P v = Some es \<longleftrightarrow> kind_of P v = Phi es"
  by (auto simp: phi_edges_def split: value_kind.splits)

lemma Edges_nonempty: "Edges P v \<noteq> [] \<Longrightarrow> kind_of P v \<noteq> OtherValue"
  by (auto simp: Edges_def phi_edges_def split: option.splits value_kind.splits)

termination unwrapSSAValueVisited
proof (relation "inv_image (less_than <*lex*> less_than) (\<lambda>x. case x of
    Inl (P, v, vis) \<Rightarrow> (open_vals P vis, 3)
  | Inr (Inl (P, phi, vis)) \<Rightarrow> (open_vals P vis, 2)
  | Inr (Inr (P, es, unique, vis)) \<Rightarrow> (open_vals P vis, if es = [] then 1 else length es + 3))",
  goal_cases)
  case 1 then show ?case by (intro wf_inv_image wf_lex_prod) auto
next
  case 2 then show ?case by simp
next
  case (3 P v visited es p visited' r)
  then have "resolvePhiIfUniform P v visited = (Some r, visited')" by (cases p) auto
  with 3 have "open_vals P visited' < open_vals P visited"
    using visited_grows(2) [of P v visited]
    by (intro open_vals_less [of visited visited' v]) (auto simp: phi_edges_kind)
  then show ?case by simp
next
  case (4 P phi visited)
  have "open_vals P (phi # visited) \<le> open_vals P visited"
    by (rule open_vals_le) auto
  moreover have "open_vals P (phi # visited) < open_vals P visited" if "Edges P phi \<noteq> []"
    using 4 Edges_nonempty [OF that] by (intro open_vals_less [of _ _ phi]) auto
  ultimately show ?case by (cases "Edges P phi = []") auto
next
  case 5 then show ?case by simp
next
  case 6
  from unwrap_open_vals [OF 6(3) _ 6(1)] show ?case by auto
next
  case 7
  from unwrap_open_vals [OF 7(4) _ 7(1)] show ?case by auto
qed

declare unwrapSSAValueVisited.simps [simp del] resolvePhiIfUniform.simps [simp del]

definition unwrapSSAValue :: "prog \<Rightarrow> val \<Rightarrow> val" where
  "unwrapSSAValue P v = fst (unwrapSSAValueVisited P v [])"

function canon_loop :: "prog \<Rightarrow> val \<Rightarrow> val list \<Rightarrow> val" where
  "canon_loop P v seen =
    (if v \<in> set seen then v
     else case kind_of P v of
         UnOp MUL x \<Rightarrow> canon_loop P (unwrapSSAValue P x) (v # seen)
       | _ \<Rightarrow> v)"
  by pat_completeness auto
termination
proof (relation "measure (\<lambda>(P, v, seen). open_vals P seen)", goal_cases)
  case (2 P v seen t x)
  then have "open_vals P (v # seen) < open_vals P seen"
    by (intro open_vals_less [of _ _ v]) auto
  then show ?case by simp
qed simp

declare canon_loop.simps [simp del]

definition canonicalizeBase :: "prog \<Rightarrow> val \<Rightarrow> val" where
  "canonicalizeBase P v = canon_loop P (unwrapSSAValue P v) []"

section \<open>Mutex types and lock methods\<close>

definition sync_named :: "prog \<Rightarrow> gotype \<Rightarrow> string option" where
  "sync_named P t = (case as_named t of
     None \<Rightarrow> None
   | Some n \<Rightarrow> (case obj_pkg P n of
       None \<Rightarrow> None
     | Some p \<Rightarrow> if pkgPath (pkg_at P p) \<noteq> ''sync'' then None else Some (objName (named_at P n))))"

definition isMutexType :: "prog \<Rightarrow> gotype \<Rightarrow> bool" where
  "isMutexType P t = (case sync_named P t of
     None \<Rightarrow> False | Some name \<Rightarrow> name = ''Mutex'' \<or> name = ''RWMutex'')"

definition isRWMutexType :: "prog \<Rightarrow> gotype \<Rightarrow> bool" where
  "isRWMutexType P t = (sync_named P t = Some ''RWMutex'')"

definition isRWLockMethod :: "string \<Rightarrow> bool" where
  "isRWLockMethod name = (name = ''RLock'' \<or> name = ''RUnlock'')"

definition isLockMethod :: "string \<Rightarrow> bool" where
  "isLockMethod name = (name \<in> set [''Lock'', ''Unlock'', ''RLock'', ''RUnlock''])"

definition isLockAcquire :: "string \<Rightarrow> bool" where
  "isLockAcquire name = (name = ''Lock'' \<or> name = ''RLock'')"

definition isExclusiveLock :: "string \<Rightarrow> bool" where
  "isExclusiveLock name = (name = ''Lock'')"

definition isExclusiveUnlock :: "string \<Rightarrow> bool" where
  "isExclusiveUnlock name = (name = ''Unlock'')"

section \<open>Locks and fields\<close>

definition resolveLockRef :: "prog \<Rightarrow> val \<Rightarrow> lockRef option" where
  "resolveLockRef P v =
    (case kind_of P (unwrapSSAValue P v) of
       FieldAddr x i \<Rightarrow>
         (case as_pointer (Underlying P (type_of P x)) of
            None \<Rightarrow> None
          | Some elem \<Rightarrow>
              (case as_struct (Underlying P elem) of
                 None \<Rightarrow> None
               | Some fs \<Rightarrow>
                   if i \<ge> length fs then None
                   else if \<not> isMutexType P (fieldType (fs ! i)) then None
                   else Some \<lparr>lr_kind = fieldLock, lr_base = canonicalizeBase P x,
                     lr_fieldIndex = i\<rparr>))
     | _ \<Rightarrow> None)"

fun embedded_loop :: "prog \<Rightarrow> string \<Rightarrow> nat \<Rightarrow> gofield list \<Rightarrow> nat option" where
  "embedded_loop P methodName i [] = None"
| "embedded_loop P methodName i (f # fs) =
    (if \<not> fieldAnonymous f \<or> \<not> isMutexType P (fieldType f) then embedded_loop P methodName (Suc i) fs
     else if isRWLockMethod methodName \<and> \<not> isRWMutexType P (fieldType f)
       then embedded_loop P methodName (Suc i) fs
     else Some i)"

definition resolveEmbeddedMutexRef :: "prog \<Rightarrow> val \<Rightarrow> string \<Rightarrow> lockRef option" where
  "resolveEmbeddedMutexRef P recv0 methodName =
    (let recv = unwrapSSAValue P recv0 in
     case as_pointer (Underlying P (type_of P recv)) of
       None \<Rightarrow> None
     | Some elem \<Rightarrow>
         (case as_struct (Underlying P elem) of
            None \<Rightarrow> None
          | Some fs \<Rightarrow>
              (case embedded_loop P methodName 0 fs of
                 None \<Rightarrow> None
               | Some i \<Rightarrow> Some \<lparr>lr_kind = fieldLock, lr_base = canonicalizeBase P recv,
                   lr_fieldIndex = i\<rparr>)))"

definition resolveFieldAccess :: "prog \<Rightarrow> val \<Rightarrow> (val \<times> nat \<times> named) option" where
  "resolveFieldAccess P v =
    (case kind_of P v of
       FieldAddr x i \<Rightarrow>
         (case as_pointer (Underlying P (type_of P x)) of
            None \<Rightarrow> None
          | Some elem \<Rightarrow>
              (case as_named elem of
                 None \<Rightarrow> None
               | Some n \<Rightarrow> Some (canonicalizeBase P x, i, n)))
     | _ \<Rightarrow> None)"

section \<open>What the resolution preserves\<close>

text \<open>The non-Phi values a value can stand for at run time.\<close>

definition phi_step :: "prog \<Rightarrow> (val \<times> val) set" where
  "phi_step P = {(v, u). u \<in> set (Edges P v)}"

definition sources :: "prog \<Rightarrow> val \<Rightarrow> val set" where
  "sources P v = {u. (v, u) \<in> (phi_step P)\<^sup>* \<and> phi_edges P u = None}"

lemma Edges_None: "phi_edges P v = None \<Longrightarrow> Edges P v = []"
  by (simp add: Edges_def)

lemma sources_leaf:
  assumes "phi_edges P v = None"
  shows "sources P v = {v}"
proof -
  have "u = v" if "(v, u) \<in> (phi_step P)\<^sup>*" for u
    using that assms by (induction rule: converse_rtrancl_induct) (auto simp: phi_step_def Edges_None)
  with assms show ?thesis by (auto simp: sources_def)
qed

lemma sources_phi:
  assumes "phi_edges P v \<noteq> None"
  shows "sources P v = (\<Union>e \<in> set (Edges P v). sources P e)"
proof -
  have "(v, u) \<in> (phi_step P)\<^sup>* \<longleftrightarrow> (\<exists>e \<in> set (Edges P v). (e, u) \<in> (phi_step P)\<^sup>*)"
    if "phi_edges P u = None" for u
  proof
    assume "(v, u) \<in> (phi_step P)\<^sup>*"
    with assms that obtain e where "(v, e) \<in> phi_step P" "(e, u) \<in> (phi_step P)\<^sup>*"
      by (metis converse_rtranclE)
    then show "\<exists>e \<in> set (Edges P v). (e, u) \<in> (phi_step P)\<^sup>*" by (auto simp: phi_step_def)
  next
    assume "\<exists>e \<in> set (Edges P v). (e, u) \<in> (phi_step P)\<^sup>*"
    then show "(v, u) \<in> (phi_step P)\<^sup>*"
      by (auto simp: phi_step_def intro: converse_rtrancl_into_rtrancl)
  qed
  then show ?thesis by (auto simp: sources_def)
qed

lemma unwrap_sources:
  "sources P (fst (unwrapSSAValueVisited P v vis)) = sources P v"
  "phi_edges P phi \<noteq> None \<Longrightarrow> fst (resolvePhiIfUniform P phi vis) = Some r \<Longrightarrow>
    sources P r = sources P phi"
  "fst (phi_loop P es unique vis) = Some r \<Longrightarrow> (unique \<noteq> None \<longrightarrow> unique = Some r) \<and>
    (\<forall>e \<in> set es. sources P e = sources P r) \<and> (es = [] \<longrightarrow> unique = Some r)"
proof (induction P v vis and P phi vis and P es unique vis arbitrary: and r and r
    rule: unwrapSSAValueVisited_resolvePhiIfUniform_phi_loop.induct)
  case (1 P v visited)
  then show ?case
    by (auto simp: unwrapSSAValueVisited.simps [of P v visited] split: option.splits prod.splits)
next
  case (2 P phi visited)
  then show ?case
    by (auto simp: resolvePhiIfUniform.simps [of P phi visited] sources_phi split: if_splits)
next
  case (3 P unique visited)
  then show ?case by simp
next
  case (4 P e es unique visited)
  obtain edge vis' where e: "unwrapSSAValueVisited P e visited = (edge, vis')" by fastforce
  have src: "sources P edge = sources P e" using "4.IH"(1) e by simp
  show ?case
  proof (cases unique)
    case None
    with 4(2) [OF e [symmetric] None] "4.prems" e src show ?thesis by simp
  next
    case (Some u)
    with "4.prems" e have u: "u = edge" by (simp split: if_splits)
    with 4(3) [OF e [symmetric] Some] "4.prems" e src Some show ?thesis by simp
  qed
qed

lemma sources_unwrapSSAValue: "sources P (unwrapSSAValue P v) = sources P v"
  by (simp add: unwrapSSAValue_def unwrap_sources(1))

text \<open>A chain of loads that ends after \<open>n\<close> loads.\<close>

inductive deref_in :: "prog \<Rightarrow> nat \<Rightarrow> val \<Rightarrow> val \<Rightarrow> bool" for P where
  deref_stop: "(\<And>x. kind_of P v \<noteq> UnOp MUL x) \<Longrightarrow> deref_in P 0 v v"
| deref_load: "kind_of P v = UnOp MUL x \<Longrightarrow> deref_in P n (unwrapSSAValue P x) w \<Longrightarrow>
    deref_in P (Suc n) v w"

inductive_simps deref_in_0: "deref_in P 0 v w"
inductive_simps deref_in_Suc: "deref_in P (Suc n) v w"

lemma deref_in_unique: "deref_in P n v w \<Longrightarrow> deref_in P m v w' \<Longrightarrow> n = m \<and> w = w'"
proof (induction n arbitrary: m v)
  case 0
  then show ?case by (cases m) (auto simp: deref_in_0 deref_in_Suc)
next
  case (Suc n)
  then obtain x where x: "kind_of P v = UnOp MUL x" "deref_in P n (unwrapSSAValue P x) w"
    by (auto simp: deref_in_Suc)
  with Suc.prems(2) obtain m' where "m = Suc m'" "deref_in P m' (unwrapSSAValue P x) w'"
    by (cases m) (auto simp: deref_in_0 deref_in_Suc)
  with Suc.IH x(2) show ?case by blast
qed

text \<open>The loop follows such a chain to its end: what it has seen before is further from the end.\<close>

lemma canon_loop_end:
  assumes "deref_in P n v w"
    and "\<And>u m w'. u \<in> set seen \<Longrightarrow> deref_in P m u w' \<Longrightarrow> n < m"
  shows "canon_loop P v seen = w"
  using assms
proof (induction n arbitrary: v seen)
  case 0
  then have "v \<notin> set seen" by blast
  moreover have "w = v" "\<And>x. kind_of P v \<noteq> UnOp MUL x" using "0.prems"(1) by (auto simp: deref_in_0)
  ultimately show ?case
    by (subst canon_loop.simps) (auto split: value_kind.splits unop_token.splits)
next
  case (Suc n)
  then obtain x where x: "kind_of P v = UnOp MUL x" "deref_in P n (unwrapSSAValue P x) w"
    by (auto simp: deref_in_Suc)
  have "v \<notin> set seen" using Suc.prems by blast
  moreover have "canon_loop P (unwrapSSAValue P x) (v # seen) = w"
  proof (rule Suc.IH [OF x(2)])
    fix u m w' assume "u \<in> set (v # seen)" "deref_in P m u w'"
    then show "n < m"
      using Suc.prems deref_in_unique [of P "Suc n" v w m w'] by (cases "u = v") force+
  qed
  ultimately show ?case using x(1) by (subst canon_loop.simps) simp
qed

lemma canonicalizeBase_end: "deref_in P n (unwrapSSAValue P v) w \<Longrightarrow> canonicalizeBase P v = w"
  unfolding canonicalizeBase_def by (rule canon_loop_end) auto

lemma unwrap_non_phi: "phi_edges P v = None \<Longrightarrow> unwrapSSAValue P v = v"
  by (simp add: unwrapSSAValue_def unwrapSSAValueVisited.simps)

lemma canonicalizeBase_load:
  assumes "kind_of P v = UnOp MUL a" and "deref_in P n (unwrapSSAValue P a) w"
  shows "canonicalizeBase P v = w"
proof -
  have "unwrapSSAValue P v = v" using assms(1) by (intro unwrap_non_phi) (simp add: phi_edges_def)
  moreover have "deref_in P (Suc n) v w" using assms by (rule deref_load)
  ultimately show ?thesis by (intro canonicalizeBase_end) auto
qed

text \<open>The first embedded mutex that has the method is chosen.\<close>

definition embedded_match :: "prog \<Rightarrow> string \<Rightarrow> gofield \<Rightarrow> bool" where
  "embedded_match P methodName f \<longleftrightarrow> fieldAnonymous f \<and> isMutexType P (fieldType f) \<and>
    (isRWLockMethod methodName \<longrightarrow> isRWMutexType P (fieldType f))"

lemma embedded_loop_spec:
  "embedded_loop P m i fs = Some k \<longleftrightarrow> (\<exists>j < length fs. k = i + j \<and> embedded_match P m (fs ! j) \<and>
    (\<forall>l < j. \<not> embedded_match P m (fs ! l)))"
proof (induction fs arbitrary: i)
  case (Cons f fs)
  have "embedded_loop P m i (f # fs) = (if embedded_match P m f then Some i
      else embedded_loop P m (Suc i) fs)"
    by (auto simp: embedded_match_def)
  then show ?case
    by (simp add: Cons.IH Ex_less_Suc2 All_less_Suc2 eq_commute [of k])
qed simp

end
