(* ===== verification/Pass_Context.thy ===== *)
theory Pass_Context
  imports Resolver
begin

text \<open>
  The state of one analyzer pass: the structs of \<open>pkg/analyzer/golintmu.go\<close>, the records of
  \<open>interprocedural.go\<close>, \<open>lockorder.go\<close>, \<open>annotations.go\<close> and \<open>facts.go\<close> that it holds, and the
  helpers every phase uses: \<open>getOrCreateFuncFacts\<close>, \<open>isSuppressed\<close>, the names of locks for messages
  and \<open>report\<close>.

  \<open>apass\<close> is what the analysis framework hands to the analyzer (\<open>*analysis.Pass\<close> and the result of
  \<open>buildssa\<close>): the program, the positions, the comments, and the imported facts as functions of the
  identity of the object they are attached to. Its
  field \<open>rangeOrder\<close> holds the choices of the Go runtime for every \<open>range\<close> over a map whose order
  can be observed, by the function that contains the loop and a counter; \<open>hasSSA\<close> says that the result
  of \<open>buildssa\<close> is there.
  A pointer to a \<open>funcLockFacts\<close> is its key in \<open>funcFacts\<close>: a write through the pointer is
  \<open>updFuncFacts\<close>.
  Diagnostics are kept as values of \<open>diagnostic\<close>, with the text that is printed given by
  \<open>message\<close>.
\<close>

section \<open>Data\<close>

record fieldKey =
  fk_StructType :: named
  fk_FieldIndex :: nat

record mutexFieldKey =
  mfk_StructType :: named
  mfk_FieldIndex :: nat

record heldMutexField =
  hmf_FieldIndex :: nat
  hmf_Exclusive :: bool

record observation =
  SameBaseMutexFields :: "heldMutexField list"
  IsRead :: bool
  obsFunc :: func
  obsPos :: pos

record guardInfo =
  MutexFieldIndex :: nat
  NeedsExclusive :: bool

record obsKey =
  ok_field :: fieldKey
  ok_pos :: pos
  ok_isRead :: bool

record unlockOfUnlockedCandidate =
  uuc_Fn :: func
  uuc_Pos :: pos
  uuc_Ref :: lockRef

record lockLeakCandidate =
  llc_Fn :: func
  llc_Pos :: pos
  llc_Ref :: lockRef
  llc_AcquirePos :: pos

record deferredLockTypoKey =
  dlt_fn :: func
  dlt_ref :: lockRef

record heldMutexRef =
  hmr_FieldIndex :: nat
  hmr_Exclusive :: bool

text \<open>The zero \<open>fieldKey\<close> of a transitive origin, whose struct type is nil, is \<open>None\<close>.\<close>

record requirementOrigin =
  ro_FieldKey :: "fieldKey option"
  ro_AccessPos :: pos
  ro_IsRead :: bool
  ro_ViaCallee :: "func option"
  ro_ViaCallPos :: pos

record callSiteRecord =
  Caller :: func
  Callee :: func
  csPos :: pos
  HeldByStructType :: "(named, heldMutexRef list) gomap"
  ReceiverValue :: "val option"

record funcLockFacts =
  Requires :: "mutexFieldKey list"
  RequiresOrigin :: "(mutexFieldKey, requirementOrigin list) gomap"
  Acquires :: "mutexFieldKey list"
  AcquiresTransitive :: "mutexFieldKey list"
  ReturnsHolding :: "mutexFieldKey list"
  Releases :: "mutexFieldKey list"

record lockOrderEdge =
  edgeFrom :: mutexFieldKey
  edgeTo :: mutexFieldKey
  edgePos :: pos
  edgeFn :: func

type_synonym lockOrderCycle = "lockOrderEdge list"
type_synonym lockOrderGraph = "(mutexFieldKey, lockOrderEdge list) gomap"

record annotations =
  concurrent :: "func list"
  ignored :: "func list"
  nolint :: "(string, nat list) gomap"

record FieldGuardFact =
  factGuards :: "(nat, nat) gomap"
  factNeedsExclusive :: "(nat, bool) gomap"

datatype MutexRef = MutexRef (refPkgPath: string) (refTypeName: string) (refFieldIndex: nat)

record FuncLockFact =
  factRequires :: "MutexRef list"
  factAcquires :: "MutexRef list"
  factAcquiresTransitive :: "MutexRef list"
  factReturnsHolding :: "MutexRef list"

datatype diagnostic =
    Violation string string string
  | WriteUnderSharedLock string string string
  | DoubleLock string
  | RecursiveRLock string
  | LockUpgradeAttempt string
  | MismatchedUnlock string bool string
  | DeferredLock string string string
  | AcquireHelper string string
  | CallerMissingUnlock string string string
  | LockLeak string string nat nat
  | UnlockOfUnlocked string
  | CycleOn string
  | CycleBetween string string
  | ExportedGuardedField string string string
  | MissingLockAtCallSite string string "string list"
  | DoubleLockAtCallSite string string
  | InconsistentLockState string

record apass =
  hasSSA :: bool
  passProg :: prog
  passPkg :: pkg
  Fset :: "pos \<Rightarrow> position"
  Files :: "ast_file list"
  SrcFuncs :: "func list"
  nFactTypes :: nat
  ImportTypeFact :: "nat \<Rightarrow> FieldGuardFact option"
  ImportFuncFact :: "nat \<Rightarrow> FuncLockFact option"
  ImportConcurrentFact :: "nat \<Rightarrow> bool"
  verboseFlag :: bool
  rangeOrder :: "string \<Rightarrow> nat \<Rightarrow> nat \<Rightarrow> nat"

record passContext =
  pass :: apass
  srcFuncs :: "func list"
  observations :: "(fieldKey, observation list) gomap"
  guards :: "(fieldKey, guardInfo) gomap"
  observedAt :: "obsKey list"
  verbose :: bool
  callSites :: "callSiteRecord list"
  funcFacts :: "(func, funcLockFacts) gomap"
  unlockOfUnlockedCandidates :: "unlockOfUnlockedCandidate list"
  lockLeakCandidates :: "(pos, lockLeakCandidate list) gomap"
  deferredLockTypoReported :: "deferredLockTypoKey list"
  orderGraph :: lockOrderGraph
  concurrentFuncs :: "func list option"
  annos :: "annotations option"
  diagnostics :: "(pos \<times> diagnostic) list"
  exportedTypeFacts :: "(nat, FieldGuardFact) gomap"
  exportedFuncFacts :: "(nat, FuncLockFact) gomap"
  exportedConcurrentFacts :: "nat list"

abbreviation prog_of :: "passContext \<Rightarrow> prog" where
  "prog_of ctx \<equiv> passProg (pass ctx)"

text \<open>The initial state that \<open>run\<close> builds.\<close>

definition newPassContext :: "apass \<Rightarrow> passContext" where
  "newPassContext p =
    \<lparr>pass = p, srcFuncs = SrcFuncs p, observations = [], guards = [], observedAt = [],
     verbose = verboseFlag p, callSites = [], funcFacts = [], unlockOfUnlockedCandidates = [],
     lockLeakCandidates = [], deferredLockTypoReported = [], orderGraph = [],
     concurrentFuncs = None, annos = None, diagnostics = [], exportedTypeFacts = [],
     exportedFuncFacts = [], exportedConcurrentFacts = []\<rparr>"

section \<open>Function facts\<close>

definition newFuncLockFacts :: funcLockFacts where
  "newFuncLockFacts = \<lparr>Requires = [], RequiresOrigin = [], Acquires = [], AcquiresTransitive = [],
     ReturnsHolding = [], Releases = []\<rparr>"

definition getOrCreateFuncFacts :: "passContext \<Rightarrow> func \<Rightarrow> funcLockFacts \<times> passContext" where
  "getOrCreateFuncFacts ctx fn =
    (case gm_get (funcFacts ctx) fn of
       Some facts \<Rightarrow> (facts, ctx)
     | None \<Rightarrow> (newFuncLockFacts,
         ctx\<lparr>funcFacts := gm_put (funcFacts ctx) fn newFuncLockFacts\<rparr>))"

definition updFuncFacts ::
    "passContext \<Rightarrow> func \<Rightarrow> (funcLockFacts \<Rightarrow> funcLockFacts) \<Rightarrow> passContext" where
  "updFuncFacts ctx fn upd =
    (case getOrCreateFuncFacts ctx fn of
       (facts, ctx') \<Rightarrow> ctx'\<lparr>funcFacts := gm_put (funcFacts ctx') fn (upd facts)\<rparr>)"

text \<open>The facts of a function, with the empty facts of a function not in the map.\<close>

definition factsOf :: "passContext \<Rightarrow> func \<Rightarrow> funcLockFacts" where
  "factsOf ctx fn =
    (case gm_get (funcFacts ctx) fn of Some facts \<Rightarrow> facts | None \<Rightarrow> newFuncLockFacts)"

lemma factsOf_updFuncFacts [simp]:
  "factsOf (updFuncFacts ctx fn upd) fn' = (if fn' = fn then upd (factsOf ctx fn) else factsOf ctx fn')"
  by (simp add: factsOf_def updFuncFacts_def getOrCreateFuncFacts_def split: option.splits)

lemma get_updFuncFacts [simp]:
  "gm_get (funcFacts (updFuncFacts ctx fn upd)) fn' =
    (if fn' = fn then Some (upd (factsOf ctx fn)) else gm_get (funcFacts ctx) fn')"
  by (simp add: factsOf_def updFuncFacts_def getOrCreateFuncFacts_def split: option.splits)

lemma updFuncFacts_frame [simp]:
  "pass (updFuncFacts ctx fn upd) = pass ctx"
  "srcFuncs (updFuncFacts ctx fn upd) = srcFuncs ctx"
  "observations (updFuncFacts ctx fn upd) = observations ctx"
  "guards (updFuncFacts ctx fn upd) = guards ctx"
  "observedAt (updFuncFacts ctx fn upd) = observedAt ctx"
  "verbose (updFuncFacts ctx fn upd) = verbose ctx"
  "callSites (updFuncFacts ctx fn upd) = callSites ctx"
  "unlockOfUnlockedCandidates (updFuncFacts ctx fn upd) = unlockOfUnlockedCandidates ctx"
  "lockLeakCandidates (updFuncFacts ctx fn upd) = lockLeakCandidates ctx"
  "deferredLockTypoReported (updFuncFacts ctx fn upd) = deferredLockTypoReported ctx"
  "orderGraph (updFuncFacts ctx fn upd) = orderGraph ctx"
  "concurrentFuncs (updFuncFacts ctx fn upd) = concurrentFuncs ctx"
  "annos (updFuncFacts ctx fn upd) = annos ctx"
  "diagnostics (updFuncFacts ctx fn upd) = diagnostics ctx"
  "exportedTypeFacts (updFuncFacts ctx fn upd) = exportedTypeFacts ctx"
  "exportedFuncFacts (updFuncFacts ctx fn upd) = exportedFuncFacts ctx"
  "exportedConcurrentFacts (updFuncFacts ctx fn upd) = exportedConcurrentFacts ctx"
  by (simp_all add: updFuncFacts_def getOrCreateFuncFacts_def split: option.splits)

lemma gm_ok_updFuncFacts [simp]:
  "gm_ok (funcFacts ctx) \<Longrightarrow> gm_ok (funcFacts (updFuncFacts ctx fn upd))"
  by (simp add: updFuncFacts_def getOrCreateFuncFacts_def split: option.splits)

section \<open>Suppression and reporting\<close>

definition isSuppressed :: "passContext \<Rightarrow> func \<Rightarrow> pos \<Rightarrow> bool" where
  "isSuppressed ctx fn p =
    (case annos ctx of
       None \<Rightarrow> False
     | Some a \<Rightarrow>
         if fn \<in> set (ignored a) then True
         else if IsValid p then
           (let q = Fset (pass ctx) p in
            case gm_get (nolint a) (Filename q) of
              None \<Rightarrow> False
            | Some lines \<Rightarrow> Line q \<in> set lines)
         else False)"

definition report :: "passContext \<Rightarrow> pos \<Rightarrow> diagnostic \<Rightarrow> passContext" where
  "report ctx p d = ctx\<lparr>diagnostics := diagnostics ctx @ [(p, d)]\<rparr>"

lemma report_frame [simp]:
  "pass (report ctx p d) = pass ctx"
  "srcFuncs (report ctx p d) = srcFuncs ctx"
  "observations (report ctx p d) = observations ctx"
  "guards (report ctx p d) = guards ctx"
  "observedAt (report ctx p d) = observedAt ctx"
  "verbose (report ctx p d) = verbose ctx"
  "callSites (report ctx p d) = callSites ctx"
  "funcFacts (report ctx p d) = funcFacts ctx"
  "unlockOfUnlockedCandidates (report ctx p d) = unlockOfUnlockedCandidates ctx"
  "lockLeakCandidates (report ctx p d) = lockLeakCandidates ctx"
  "deferredLockTypoReported (report ctx p d) = deferredLockTypoReported ctx"
  "orderGraph (report ctx p d) = orderGraph ctx"
  "concurrentFuncs (report ctx p d) = concurrentFuncs ctx"
  "annos (report ctx p d) = annos ctx"
  "diagnostics (report ctx p d) = diagnostics ctx @ [(p, d)]"
  by (simp_all add: report_def)

section \<open>Names of locks\<close>

fun peel_pointers :: "prog \<Rightarrow> nat \<Rightarrow> gotype \<Rightarrow> (named \<times> gofield list) option" where
  "peel_pointers P 0 t = None"
| "peel_pointers P (Suc depth) t =
    (case as_pointer (Underlying P t) of
       None \<Rightarrow> None
     | Some elem \<Rightarrow>
         (case as_named elem of
            Some n \<Rightarrow>
              (case as_struct (Underlying P (Named n)) of
                 None \<Rightarrow> None
               | Some fs \<Rightarrow> Some (n, fs))
          | None \<Rightarrow> peel_pointers P depth elem))"

definition resolveStructFromBase :: "prog \<Rightarrow> val \<Rightarrow> (named \<times> gofield list) option" where
  "resolveStructFromBase P base = peel_pointers P 4 (type_of P base)"

definition lockRefName :: "prog \<Rightarrow> lockRef \<Rightarrow> string" where
  "lockRefName P ref =
    (if lr_kind ref \<noteq> fieldLock then ''''
     else case resolveStructFromBase P (lr_base ref) of
         None \<Rightarrow> ''''
       | Some (n, fs) \<Rightarrow>
           if lr_fieldIndex ref \<ge> length fs then ''''
           else objName (named_at P n) @ ''.'' @ fieldName (fs ! lr_fieldIndex ref))"

definition mutexFieldKeyName :: "prog \<Rightarrow> mutexFieldKey \<Rightarrow> string" where
  "mutexFieldKeyName P mfk =
    (case as_struct (Underlying P (Named (mfk_StructType mfk))) of
       None \<Rightarrow> ''''
     | Some fs \<Rightarrow>
         if mfk_FieldIndex mfk \<ge> length fs then ''''
         else objName (named_at P (mfk_StructType mfk)) @ ''.'' @ fieldName (fs ! mfk_FieldIndex mfk))"

definition lockRefToMutexFieldKey :: "prog \<Rightarrow> lockRef \<Rightarrow> mutexFieldKey option" where
  "lockRefToMutexFieldKey P ref =
    (if lr_kind ref \<noteq> fieldLock then None
     else case resolveStructFromBase P (lr_base ref) of
         None \<Rightarrow> None
       | Some (n, fs) \<Rightarrow> Some \<lparr>mfk_StructType = n, mfk_FieldIndex = lr_fieldIndex ref\<rparr>)"

text \<open>The name of a lock instance and the name of its type-scoped key agree.\<close>

lemma peel_pointers_struct:
  "peel_pointers P d t = Some (n, fs) \<Longrightarrow> as_struct (Underlying P (Named n)) = Some fs"
  by (induction P d t rule: peel_pointers.induct) (auto split: option.splits)

lemma lockRefName_key:
  "lockRefToMutexFieldKey P ref = Some mfk \<Longrightarrow> lockRefName P ref = mutexFieldKeyName P mfk"
  by (auto simp: lockRefToMutexFieldKey_def lockRefName_def mutexFieldKeyName_def
      resolveStructFromBase_def dest!: peel_pointers_struct split: if_splits option.splits)

section \<open>The text of the diagnostics\<close>

fun message :: "diagnostic \<Rightarrow> string" where
  "message (Violation s f m) =
    ''field '' @ s @ ''.'' @ f @ '' is accessed without holding '' @ s @ ''.'' @ m"
| "message (WriteUnderSharedLock s f m) =
    ''field '' @ s @ ''.'' @ f @ '' is written while '' @ s @ ''.'' @ m @ '' is read-locked '' @
    em_dash @ '' use Lock() for write access''"
| "message (DoubleLock n) = n @ '' is already held when locking '' @ n"
| "message (RecursiveRLock n) =
    ''recursive RLock on '' @ n @ '' '' @ em_dash @ '' can deadlock if a writer is waiting''"
| "message (LockUpgradeAttempt n) =
    n @ ''.Lock() called while '' @ n @ '' is read-locked '' @ em_dash @ '' lock upgrade can deadlock''"
| "message (MismatchedUnlock n wasExclusive unlockMethod) =
    (if wasExclusive
     then n @ '' is exclusively locked but '' @ unlockMethod @ ''() was called '' @ em_dash @
       '' use Unlock()''
     else n @ '' is read-locked but '' @ unlockMethod @ ''() was called '' @ em_dash @
       '' use RUnlock()'')"
| "message (DeferredLock n methodName suggestion) =
    ''defer '' @ n @ ''.'' @ methodName @ ''() will deadlock '' @ em_dash @ '' did you mean defer '' @
    n @ ''.'' @ suggestion @ ''()?''"
| "message (AcquireHelper fn n) =
    fn @ ''() returns while holding '' @ n @ '' -- callers must unlock''"
| "message (CallerMissingUnlock caller callee n) =
    caller @ ''() calls '' @ callee @ ''() which acquires '' @ n @ '', but '' @ caller @
    ''() never releases it''"
| "message (LockLeak n file line col) =
    ''return without unlocking '' @ n @ '' (locked at '' @ file @ '':'' @ itoa line @ '':'' @
    itoa col @ '')''"
| "message (UnlockOfUnlocked n) = ''Unlock() called but '' @ n @ '' is not held''"
| "message (CycleOn n) = ''potential deadlock: lock ordering cycle on '' @ n"
| "message (CycleBetween n m) =
    ''potential deadlock: lock ordering cycle between '' @ n @ '' and '' @ m"
| "message (ExportedGuardedField s f m) =
    ''field '' @ s @ ''.'' @ f @ '' is guarded by '' @ s @ ''.'' @ m @ '' but is exported '' @ em_dash @
    '' external packages can bypass the lock''"
| "message (MissingLockAtCallSite n callee reasons) =
    n @ '' must be held when calling '' @ callee @ ''()'' @
    concat (map (\<lambda>line. char_of (10 :: nat) # line) reasons)"
| "message (DoubleLockAtCallSite n callee) =
    n @ '' is already held when calling '' @ callee @ ''() which locks '' @ n"
| "message (InconsistentLockState n) =
    ''inconsistent lock state: '' @ n @ '' is held on one branch but not the other''"

end
