(* ===== verification/Lock_Order.thy ===== *)
theory Lock_Order
  imports Pass_Context
begin

text \<open>
  \<open>pkg/analyzer/lockorder.go\<close>: the lock-order graph and the search for cycles in it. The variables
  that the closure \<open>dfs\<close> captures (\<open>color\<close>, \<open>parent\<close>, \<open>cycles\<close>) are the record \<open>dfs_state\<close>; the loop over
  the edges of a node is \<open>dfs_edges\<close>. \<open>sort.Slice\<close> on the edges of a node sorts the slice of the
  graph in place, which no later step reads: every node is visited once.
  \<open>ce\<close> and \<open>c\<close> are the orders that the sorts leave open.

  Every reported cycle is a closed walk of graph edges, and a graph with a cycle is always
  reported: the search reports nothing only when the graph is acyclic.
\<close>

section \<open>The graph\<close>

definition newLockOrderGraph :: lockOrderGraph where
  "newLockOrderGraph = []"

definition addEdge :: "lockOrderGraph \<Rightarrow> lockOrderEdge \<Rightarrow> lockOrderGraph" where
  "addEdge g edge =
    (if list_ex (\<lambda>existing. edgeTo existing = edgeTo edge \<and> edgeFn existing = edgeFn edge)
        (gm_slice g (edgeFrom edge))
     then g
     else gm_append g (edgeFrom edge) edge)"

section \<open>Extracting a cycle\<close>

function extract_loop :: "(mutexFieldKey, lockOrderEdge) gomap \<Rightarrow> mutexFieldKey \<Rightarrow> mutexFieldKey \<Rightarrow>
    mutexFieldKey list \<Rightarrow> lockOrderCycle \<Rightarrow> lockOrderCycle option" where
  "extract_loop parent target current visited cycle =
    (if current = target then Some cycle
     else if current \<in> set visited then None
     else case gm_get parent current of
         None \<Rightarrow> None
       | Some edge \<Rightarrow>
           extract_loop parent target (edgeFrom edge) (current # visited) (cycle @ [edge]))"
  by pat_completeness auto
termination
proof (relation "measure (\<lambda>(parent, target, current, visited, cycle).
    card (set (gm_keys parent) - set visited))", goal_cases)
  case (2 parent target current visited cycle edge)
  then have "current \<in> set (gm_keys parent) - set visited" by (simp add: gm_keys_get)
  then have "set (gm_keys parent) - set (current # visited) \<subset> set (gm_keys parent) - set visited"
    by auto
  then show ?case by (simp add: psubset_card_mono)
qed simp

declare extract_loop.simps [simp del]

definition extractCycle ::
    "(mutexFieldKey, lockOrderEdge) gomap \<Rightarrow> lockOrderEdge \<Rightarrow> lockOrderCycle option" where
  "extractCycle parent backEdge =
    map_option rev (extract_loop parent (edgeTo backEdge) (edgeFrom backEdge) [] [backEdge])"

section \<open>Depth-first search\<close>

datatype color = white | gray | black

record dfs_state =
  colors :: "(mutexFieldKey, color) gomap"
  parent :: "(mutexFieldKey, lockOrderEdge) gomap"
  cycles :: "lockOrderCycle list"

definition color_of :: "dfs_state \<Rightarrow> mutexFieldKey \<Rightarrow> color" where
  "color_of st node = (case gm_get (colors st) node of None \<Rightarrow> white | Some col \<Rightarrow> col)"

definition set_color :: "dfs_state \<Rightarrow> mutexFieldKey \<Rightarrow> color \<Rightarrow> dfs_state" where
  "set_color st node col = st\<lparr>colors := gm_put (colors st) node col\<rparr>"

definition set_parent :: "dfs_state \<Rightarrow> lockOrderEdge \<Rightarrow> dfs_state" where
  "set_parent st edge = st\<lparr>parent := gm_put (parent st) (edgeTo edge) edge\<rparr>"

definition add_cycle :: "dfs_state \<Rightarrow> lockOrderCycle option \<Rightarrow> dfs_state" where
  "add_cycle st cy = (case cy of None \<Rightarrow> st | Some cy' \<Rightarrow> st\<lparr>cycles := cycles st @ [cy']\<rparr>)"

type_synonym edge_order = "mutexFieldKey \<Rightarrow> nat \<Rightarrow> nat"

definition sorted_edges :: "prog \<Rightarrow> edge_order \<Rightarrow> lockOrderGraph \<Rightarrow> mutexFieldKey \<Rightarrow> lockOrderEdge list" where
  "sorted_edges P ce g node =
    sort_slice (ce node) (\<lambda>e. mutexFieldKeyName P (edgeTo e)) (gm_slice g node)"

definition graph_nodes :: "lockOrderGraph \<Rightarrow> mutexFieldKey list" where
  "graph_nodes g =
    fold (\<lambda>(from, es) nodes. fold (\<lambda>e nodes. set_add nodes (edgeTo e)) es (set_add nodes from)) g []"

text \<open>Both callers of \<open>dfs\<close> have found the node white; the test stands in \<open>dfs\<close> too, so that it is
  total.\<close>

function (sequential)
  dfs :: "prog \<Rightarrow> edge_order \<Rightarrow> lockOrderGraph \<Rightarrow> mutexFieldKey \<Rightarrow> dfs_state \<Rightarrow> dfs_state" and
  dfs_edges :: "prog \<Rightarrow> edge_order \<Rightarrow> lockOrderGraph \<Rightarrow> lockOrderEdge list \<Rightarrow> dfs_state \<Rightarrow> dfs_state"
where
  "dfs P ce g node st =
    (if color_of st node \<noteq> white then st
     else set_color (dfs_edges P ce g (sorted_edges P ce g node) (set_color st node gray)) node black)"
| "dfs_edges P ce g [] st = st"
| "dfs_edges P ce g (edge # es) st =
    (case color_of st (edgeTo edge) of
       white \<Rightarrow> dfs_edges P ce g es (dfs P ce g (edgeTo edge) (set_parent st edge))
     | gray \<Rightarrow> dfs_edges P ce g es (add_cycle st (extractCycle (parent st) edge))
     | black \<Rightarrow> dfs_edges P ce g es st)"
  by pat_completeness auto

lemma color_set_color [simp]:
  "color_of (set_color st node col) n = (if n = node then col else color_of st n)"
  by (simp add: color_of_def set_color_def)

lemma color_set_parent [simp]: "color_of (set_parent st e) n = color_of st n"
  by (simp add: color_of_def set_parent_def)

lemma color_add_cycle [simp]: "color_of (add_cycle st cy) n = color_of st n"
  by (simp add: color_of_def add_cycle_def split: option.splits)

text \<open>A node never becomes white again.\<close>

lemma white_shrinks_dom:
  "dfs_dfs_edges_dom (Inl (P, ce, g, node, st)) \<Longrightarrow>
    color_of (dfs P ce g node st) n = white \<Longrightarrow> color_of st n = white"
  "dfs_dfs_edges_dom (Inr (P, ce, g, es, st)) \<Longrightarrow>
    color_of (dfs_edges P ce g es st) n = white \<Longrightarrow> color_of st n = white"
proof (induction P ce g node st and P ce g es st rule: dfs_dfs_edges.pinduct)
  case (1 P ce g node st)
  then show ?case by (auto simp: dfs.psimps split: if_splits)
next
  case (2 P ce g st)
  then show ?case by (simp add: dfs_edges.psimps)
next
  case (3 P ce g edge es st)
  then show ?case by (auto simp: dfs_edges.psimps split: color.splits)
qed

definition n_white :: "lockOrderGraph \<Rightarrow> dfs_state \<Rightarrow> nat" where
  "n_white g st = card {n \<in> set (graph_nodes g). color_of st n = white}"

lemma n_white_le: "(\<And>n. color_of st' n = white \<Longrightarrow> color_of st n = white) \<Longrightarrow> n_white g st' \<le> n_white g st"
  unfolding n_white_def by (rule card_mono) auto

lemma n_white_gray:
  "node \<in> set (graph_nodes g) \<Longrightarrow> color_of st node = white \<Longrightarrow>
    n_white g (set_color st node gray) < n_white g st"
  unfolding n_white_def by (rule psubset_card_mono) auto

lemma set_graph_nodes: "set (graph_nodes g) = fst ` set g \<union> (\<Union>(k, es) \<in> set g. edgeTo ` set es)"
proof -
  have 1: "set (fold (\<lambda>e nodes. set_add nodes (edgeTo e)) es ns) = edgeTo ` set es \<union> set ns" for es ns
    by (induction es arbitrary: ns) auto
  have "set (fold (\<lambda>(from, es) nodes. fold (\<lambda>e nodes. set_add nodes (edgeTo e)) es (set_add nodes from)) g ns)
    = fst ` set g \<union> (\<Union>(k, es) \<in> set g. edgeTo ` set es) \<union> set ns" for ns
    by (induction g arbitrary: ns) (auto simp: 1)
  then show ?thesis by (simp add: graph_nodes_def)
qed

lemma edges_in_nodes:
  assumes "e \<in> set (gm_slice g k)"
  shows "k \<in> set (graph_nodes g)" and "edgeTo e \<in> set (graph_nodes g)"
proof -
  from assms obtain es where "(k, es) \<in> set g" "e \<in> set es"
    by (cases "map_of g k") (auto simp: gm_slice_def gm_get_def dest: map_of_SomeD)
  then show "k \<in> set (graph_nodes g)" "edgeTo e \<in> set (graph_nodes g)"
    unfolding set_graph_nodes by force+
qed

lemma set_sorted_edges [simp]: "set (sorted_edges P ce g node) = set (gm_slice g node)"
  by (simp add: sorted_edges_def)

termination dfs
proof (relation "inv_image (less_than <*lex*> less_than) (\<lambda>x. case x of
    Inl (P, ce, g, node, st) \<Rightarrow> (n_white g st, 2)
  | Inr (P, ce, g, es, st) \<Rightarrow> (n_white g st, if es = [] then 1 else length es + 2))", goal_cases)
  case 1
  then show ?case by (intro wf_inv_image wf_lex_prod) auto
next
  case (2 P ce g node st)
  show ?case
  proof (cases "sorted_edges P ce g node = []")
    case True
    have "n_white g (set_color st node gray) \<le> n_white g st" by (rule n_white_le) (auto split: if_splits)
    with True show ?thesis by auto
  next
    case False
    then obtain e where "e \<in> set (gm_slice g node)"
      by (metis set_sorted_edges last_in_set)
    with 2 have "n_white g (set_color st node gray) < n_white g st"
      by (intro n_white_gray edges_in_nodes(1)) auto
    then show ?thesis by simp
  qed
next
  case (3 P ce g edge es st)
  have "n_white g (set_parent st edge) \<le> n_white g st" by (rule n_white_le) simp
  then show ?case by auto
next
  case (4 P ce g edge es st)
  have "n_white g (dfs P ce g (edgeTo edge) (set_parent st edge)) \<le> n_white g st"
    using white_shrinks_dom(1) [OF 4(2)] by (intro n_white_le) (metis color_set_parent)
  then show ?case by auto
next
  case (5 P ce g edge es st)
  have "n_white g (add_cycle st (extractCycle (parent st) edge)) \<le> n_white g st"
    by (rule n_white_le) simp
  then show ?case by auto
next
  case 6
  then show ?case by simp
qed

declare dfs.simps [simp del]

section \<open>Removing duplicates\<close>

definition pair_name :: "prog \<Rightarrow> mutexFieldKey \<times> mutexFieldKey \<Rightarrow> string" where
  "pair_name P p = mutexFieldKeyName P (fst p) @ ''->'' @ mutexFieldKeyName P (snd p)"

definition pairLess :: "prog \<Rightarrow> mutexFieldKey \<times> mutexFieldKey \<Rightarrow> mutexFieldKey \<times> mutexFieldKey \<Rightarrow> bool" where
  "pairLess P a b = (pair_name P a < pair_name P b)"

definition minIdx :: "prog \<Rightarrow> (mutexFieldKey \<times> mutexFieldKey) list \<Rightarrow> nat" where
  "minIdx P pairs =
    fold (\<lambda>i m. if pairLess P (pairs ! i) (pairs ! m) then i else m) [1..<length pairs] 0"

definition cycle_key :: "prog \<Rightarrow> lockOrderCycle \<Rightarrow> string" where
  "cycle_key P cycle =
    (let pairs = map (\<lambda>e. (edgeFrom e, edgeTo e)) cycle;
         m = minIdx P pairs
     in concat (map (\<lambda>i. pair_name P (pairs ! ((m + i) mod length pairs)) @ '';'')
          [0..<length pairs]))"

fun dedup_loop :: "prog \<Rightarrow> lockOrderCycle list \<Rightarrow> string list \<Rightarrow> lockOrderCycle list" where
  "dedup_loop P [] seen = []"
| "dedup_loop P (cycle # cs) seen =
    (let key = cycle_key P cycle in
     if key \<in> set seen then dedup_loop P cs seen else cycle # dedup_loop P cs (key # seen))"

definition deduplicateCycles :: "prog \<Rightarrow> lockOrderCycle list \<Rightarrow> lockOrderCycle list" where
  "deduplicateCycles P cs = dedup_loop P cs []"

definition detectCycles :: "prog \<Rightarrow> edge_order \<Rightarrow> (nat \<Rightarrow> nat) \<Rightarrow> lockOrderGraph \<Rightarrow> lockOrderCycle list" where
  "detectCycles P ce c g =
    (let sortedNodes = sort_slice c (mutexFieldKeyName P) (graph_nodes g);
         st = fold (\<lambda>node st. if color_of st node = white then dfs P ce g node st else st)
            sortedNodes \<lparr>colors = [], parent = [], cycles = []\<rparr>
     in deduplicateCycles P (cycles st))"

section \<open>Every reported cycle is a cycle of the graph\<close>

definition graph_ok :: "lockOrderGraph \<Rightarrow> bool" where
  "graph_ok g \<longleftrightarrow> gm_ok g \<and> (\<forall>k. \<forall>e \<in> set (gm_slice g k). edgeFrom e = k) \<and>
    (\<forall>k. distinct (map (\<lambda>e. (edgeTo e, edgeFn e)) (gm_slice g k)))"

definition graph_edges :: "lockOrderGraph \<Rightarrow> lockOrderEdge set" where
  "graph_edges g = {e. e \<in> set (gm_slice g (edgeFrom e))}"

definition graph_rel :: "lockOrderGraph \<Rightarrow> (mutexFieldKey \<times> mutexFieldKey) set" where
  "graph_rel g = (\<lambda>e. (edgeFrom e, edgeTo e)) ` graph_edges g"

fun walk_from :: "mutexFieldKey \<Rightarrow> lockOrderEdge list \<Rightarrow> mutexFieldKey \<Rightarrow> bool" where
  "walk_from a [] b = (a = b)"
| "walk_from a (e # es) b = (edgeFrom e = a \<and> walk_from (edgeTo e) es b)"

definition is_cycle :: "lockOrderGraph \<Rightarrow> lockOrderCycle \<Rightarrow> bool" where
  "is_cycle g cy \<longleftrightarrow> cy \<noteq> [] \<and> set cy \<subseteq> graph_edges g \<and>
    walk_from (edgeFrom (hd cy)) cy (edgeFrom (hd cy))"

lemma graph_ok_empty: "graph_ok newLockOrderGraph"
  by (simp add: graph_ok_def newLockOrderGraph_def)

lemma graph_ok_addEdge: "graph_ok g \<Longrightarrow> graph_ok (addEdge g e)"
  by (auto simp: graph_ok_def addEdge_def list_ex_iff)

lemma graph_edges_addEdge:
  "graph_edges (addEdge g e) \<subseteq> insert e (graph_edges g)"
  "graph_edges g \<subseteq> graph_edges (addEdge g e)"
  by (auto simp: graph_edges_def addEdge_def split: if_splits)

text \<open>Adding an edge relates its two locks, whether or not the edge was recorded before.\<close>

lemma graph_rel_addEdge:
  assumes "graph_ok g"
  shows "graph_rel (addEdge g e) = insert (edgeFrom e, edgeTo e) (graph_rel g)"
proof -
  have "(edgeFrom e, edgeTo e) \<in> graph_rel (addEdge g e)"
  proof (cases "list_ex (\<lambda>x. edgeTo x = edgeTo e \<and> edgeFn x = edgeFn e) (gm_slice g (edgeFrom e))")
    case True
    then obtain x where x: "x \<in> set (gm_slice g (edgeFrom e))" "edgeTo x = edgeTo e"
      by (auto simp: list_ex_iff)
    then have "edgeFrom x = edgeFrom e" using assms by (auto simp: graph_ok_def)
    with x True show ?thesis
      by (auto simp: graph_rel_def graph_edges_def addEdge_def intro!: image_eqI [of _ _ x])
  next
    case False
    then show ?thesis
      by (auto simp: graph_rel_def graph_edges_def addEdge_def intro!: image_eqI [of _ _ e])
  qed
  then show ?thesis
    using graph_edges_addEdge [of g e] by (auto simp: graph_rel_def)
qed

lemma walk_from_append: "walk_from a (xs @ ys) c \<longleftrightarrow> (\<exists>b. walk_from a xs b \<and> walk_from b ys c)"
  by (induction xs arbitrary: a) auto

definition parent_ok :: "lockOrderGraph \<Rightarrow> dfs_state \<Rightarrow> bool" where
  "parent_ok g st \<longleftrightarrow> (\<forall>k e. gm_get (parent st) k = Some e \<longrightarrow> edgeTo e = k \<and> e \<in> graph_edges g)"

definition sound_state :: "lockOrderGraph \<Rightarrow> dfs_state \<Rightarrow> bool" where
  "sound_state g st \<longleftrightarrow> parent_ok g st \<and> (\<forall>cy \<in> set (cycles st). is_cycle g cy)"

lemma extract_loop_walk:
  assumes "extract_loop par target current visited cyc = Some cyc'"
    and "\<And>k e. gm_get par k = Some e \<Longrightarrow> edgeTo e = k \<and> e \<in> E"
    and "walk_from current (rev cyc) fin" and "set cyc \<subseteq> E"
  shows "walk_from target (rev cyc') fin \<and> set cyc' \<subseteq> E \<and> length cyc \<le> length cyc'"
  using assms
proof (induction par target current visited cyc rule: extract_loop.induct)
  case (1 par target current visited cyc)
  show ?case
  proof (cases "current = target")
    case True
    with "1.prems" show ?thesis by (auto simp: extract_loop.simps [of par target target])
  next
    case False
    with "1.prems"(1) obtain e where cur: "current \<notin> set visited" and e: "gm_get par current = Some e"
      and rec: "extract_loop par target (edgeFrom e) (current # visited) (cyc @ [e]) = Some cyc'"
      by (auto simp: extract_loop.simps [of par target current] split: if_splits option.splits)
    from "1.IH" [OF False cur e rec "1.prems"(2)] "1.prems"(2) [OF e] "1.prems"(3,4)
    show ?thesis by auto
  qed
qed

lemma extractCycle_is_cycle:
  assumes "parent_ok g st" and "e \<in> graph_edges g" and "extractCycle (parent st) e = Some cy"
  shows "is_cycle g cy"
proof -
  from assms(3) obtain c where c: "extract_loop (parent st) (edgeTo e) (edgeFrom e) [] [e] = Some c"
    and cy: "cy = rev c" by (auto simp: extractCycle_def)
  have "walk_from (edgeTo e) (rev c) (edgeTo e) \<and> set c \<subseteq> graph_edges g \<and> length [e] \<le> length c"
    by (rule extract_loop_walk [OF c]) (use assms in \<open>auto simp: parent_ok_def\<close>)
  then show ?thesis by (cases "rev c") (auto simp: is_cycle_def cy)
qed

lemma sound_set_color [simp]: "sound_state g (set_color st n col) = sound_state g st"
  by (simp add: sound_state_def parent_ok_def set_color_def)

lemma sound_set_parent: "e \<in> graph_edges g \<Longrightarrow> sound_state g st \<Longrightarrow> sound_state g (set_parent st e)"
  by (auto simp: sound_state_def parent_ok_def set_parent_def)

lemma sound_add_cycle:
  "e \<in> graph_edges g \<Longrightarrow> sound_state g st \<Longrightarrow> sound_state g (add_cycle st (extractCycle (parent st) e))"
  by (auto simp: sound_state_def parent_ok_def add_cycle_def split: option.splits
      intro: extractCycle_is_cycle [unfolded parent_ok_def])

lemma dfs_sound:
  "graph_ok g \<Longrightarrow> sound_state g st \<Longrightarrow> sound_state g (dfs P ce g node st)"
  "graph_ok g \<Longrightarrow> sound_state g st \<Longrightarrow> set es \<subseteq> graph_edges g \<Longrightarrow> sound_state g (dfs_edges P ce g es st)"
proof (induction P ce g node st and P ce g es st rule: dfs_dfs_edges.induct)
  case (1 P ce g node st)
  have "set (sorted_edges P ce g node) \<subseteq> graph_edges g"
    using "1.prems"(1) by (auto simp: graph_ok_def graph_edges_def)
  with 1 show ?case by (simp add: dfs.simps)
next
  case (3 P ce g edge es st)
  then show ?case
    by (auto simp: sound_set_parent sound_add_cycle split: color.splits)
qed simp

lemma set_dedup_loop: "set (dedup_loop P cs seen) \<subseteq> set cs"
  by (induction P cs seen rule: dedup_loop.induct) (auto simp: Let_def)

lemma dedup_nonempty: "cs \<noteq> [] \<Longrightarrow> deduplicateCycles P cs \<noteq> []"
  by (cases cs) (auto simp: deduplicateCycles_def Let_def)

definition dfs_all :: "prog \<Rightarrow> edge_order \<Rightarrow> lockOrderGraph \<Rightarrow> mutexFieldKey list \<Rightarrow> dfs_state \<Rightarrow> dfs_state" where
  "dfs_all P ce g nodes st =
    fold (\<lambda>node st. if color_of st node = white then dfs P ce g node st else st) nodes st"

lemma dfs_all_simps [simp]:
  "dfs_all P ce g [] st = st"
  "dfs_all P ce g (n # ns) st = dfs_all P ce g ns (dfs P ce g n st)"
  by (simp_all add: dfs_all_def dfs.simps)

definition dfs_init :: dfs_state where
  "dfs_init = \<lparr>colors = [], parent = [], cycles = []\<rparr>"

lemma detectCycles_dfs_all:
  "detectCycles P ce c g = deduplicateCycles P
    (cycles (dfs_all P ce g (sort_slice c (mutexFieldKeyName P) (graph_nodes g)) dfs_init))"
  by (simp add: detectCycles_def dfs_all_def dfs_init_def Let_def)

lemma dfs_all_sound: "graph_ok g \<Longrightarrow> sound_state g st \<Longrightarrow> sound_state g (dfs_all P ce g ns st)"
  by (induction ns arbitrary: st) (auto simp: dfs_sound(1))

lemma detectCycles_sound:
  assumes "graph_ok g" and "cy \<in> set (detectCycles P ce c g)"
  shows "is_cycle g cy"
proof -
  let ?st = "dfs_all P ce g (sort_slice c (mutexFieldKeyName P) (graph_nodes g)) dfs_init"
  have "sound_state g ?st"
    using assms(1) by (rule dfs_all_sound) (simp add: sound_state_def parent_ok_def dfs_init_def)
  moreover have "cy \<in> set (cycles ?st)"
    using assms(2) set_dedup_loop by (auto simp: detectCycles_dfs_all deduplicateCycles_def)
  ultimately show ?thesis by (simp add: sound_state_def)
qed

section \<open>A graph with a cycle is reported\<close>

text \<open>The gray nodes are the nodes on the recursion stack, innermost first, and the parent map leads
  from each to the next. While no cycle has been recorded, the edges of a black node lead to
  black nodes and the black part of the graph is acyclic.\<close>

fun chain :: "(mutexFieldKey, lockOrderEdge) gomap \<Rightarrow> mutexFieldKey list \<Rightarrow> bool" where
  "chain par (a # b # r) = ((\<exists>e. gm_get par a = Some e \<and> edgeFrom e = b) \<and> chain par (b # r))"
| "chain par r = True"

definition blacks :: "dfs_state \<Rightarrow> mutexFieldKey set" where
  "blacks st = {n. color_of st n = black}"

definition black_ok :: "lockOrderGraph \<Rightarrow> dfs_state \<Rightarrow> bool" where
  "black_ok g st \<longleftrightarrow> graph_rel g `` blacks st \<subseteq> blacks st \<and>
    acyclic (graph_rel g \<inter> blacks st \<times> UNIV)"

definition stack_ok :: "lockOrderGraph \<Rightarrow> mutexFieldKey list \<Rightarrow> dfs_state \<Rightarrow> bool" where
  "stack_ok g stk st \<longleftrightarrow> distinct stk \<and> (\<forall>n. color_of st n = gray \<longleftrightarrow> n \<in> set stk) \<and>
    chain (parent st) stk \<and> (cycles st = [] \<longrightarrow> black_ok g st)"

lemma extract_loop_chain:
  assumes "chain par (cur # r)" and "target \<in> set (cur # r)" and "distinct (cur # r)"
    and "set visited \<inter> set (cur # r) = {}"
  shows "extract_loop par target cur visited cyc \<noteq> None"
  using assms
proof (induction r arbitrary: cur visited cyc)
  case Nil
  then show ?case by (simp add: extract_loop.simps [of par cur cur])
next
  case (Cons b r)
  show ?case
  proof (cases "cur = target")
    case True
    then show ?thesis by (simp add: extract_loop.simps [of par target target])
  next
    case False
    from Cons.prems(1) obtain e where e: "gm_get par cur = Some e" "edgeFrom e = b"
      and c: "chain par (b # r)" by auto
    have "extract_loop par target b (cur # visited) (cyc @ [e]) \<noteq> None"
      using Cons.prems False by (intro Cons.IH c) auto
    then show ?thesis
      using Cons.prems False e by (subst extract_loop.simps) auto
  qed
qed

lemma acyclic_insert_black:
  assumes "E `` B \<subseteq> B" and "acyclic (E \<inter> B \<times> UNIV)" and "E `` {n} \<subseteq> B" and "n \<notin> B"
  shows "acyclic (E \<inter> insert n B \<times> UNIV)" and "E `` insert n B \<subseteq> insert n B"
proof -
  let ?R = "E \<inter> insert n B \<times> UNIV"
  have step: "(x, y) \<in> ?R \<Longrightarrow> y \<in> B" for x y using assms(1,3) by auto
  have "y \<in> B \<and> (x \<in> B \<longrightarrow> (x, y) \<in> (E \<inter> B \<times> UNIV)\<^sup>+)" if "(x, y) \<in> ?R\<^sup>+" for x y
    using that
  proof (induction rule: trancl_induct)
    case (base y)
    then show ?case using step by auto
  next
    case (step y z)
    then show ?case using assms(1) by (auto intro: trancl_into_trancl)
  qed
  then show "acyclic ?R" using assms(2,4) by (auto simp: acyclic_def)
  show "E `` insert n B \<subseteq> insert n B" using assms(1,3) by auto
qed

lemma color_gray_add [simp]: "parent (set_color st n col) = parent st"
  "cycles (set_color st n col) = cycles st" "cycles (set_parent st e) = cycles st"
  "parent (add_cycle st cy) = parent st"
  by (simp_all add: set_color_def set_parent_def add_cycle_def split: option.splits)

lemma chain_put: "k \<notin> set stk \<Longrightarrow> chain (gm_put par k e) stk = chain par stk"
  by (induction par stk rule: chain.induct) auto

lemma blacks_simps [simp]:
  "blacks (set_parent st e) = blacks st" "blacks (add_cycle st cy) = blacks st"
  "color_of st n \<noteq> black \<Longrightarrow> blacks (set_color st n gray) = blacks st"
  "blacks (set_color st n black) = insert n (blacks st)"
  by (auto simp: blacks_def)

definition dfs_grows :: "dfs_state \<Rightarrow> dfs_state \<Rightarrow> bool" where
  "dfs_grows st st' \<longleftrightarrow> (\<forall>n. color_of st n \<noteq> white \<longrightarrow> color_of st' n = color_of st n) \<and>
    (cycles st \<noteq> [] \<longrightarrow> cycles st' \<noteq> [])"

lemma dfs_grows_trans: "dfs_grows a b \<Longrightarrow> dfs_grows b c \<Longrightarrow> dfs_grows a c"
  unfolding dfs_grows_def by metis

definition parent_top :: "mutexFieldKey list \<Rightarrow> mutexFieldKey \<Rightarrow> dfs_state \<Rightarrow> bool" where
  "parent_top stk node st \<longleftrightarrow>
    (stk \<noteq> [] \<longrightarrow> (\<exists>e. gm_get (parent st) node = Some e \<and> edgeFrom e = hd stk))"

lemma stack_push:
  assumes "stack_ok g stk st" and "color_of st node = white" and "parent_top stk node st"
  shows "stack_ok g (node # stk) (set_color st node gray)"
proof -
  have "node \<notin> set stk" using assms(1,2) by (metis color.distinct(1) stack_ok_def)
  moreover have "chain (parent st) (node # stk)"
    using assms(1,3) by (cases stk) (auto simp: stack_ok_def parent_top_def)
  ultimately show ?thesis
    using assms(1,2) by (auto simp: stack_ok_def black_ok_def)
qed

lemma stack_pop:
  assumes "stack_ok g (node # stk) st" and "cycles st = [] \<longrightarrow> graph_rel g `` {node} \<subseteq> blacks st"
  shows "stack_ok g stk (set_color st node black)"
proof -
  have "color_of st node = gray" using assms(1) by (auto simp: stack_ok_def)
  then have nb: "node \<notin> blacks st" by (simp add: blacks_def)
  have "chain (parent st) stk" using assms(1) by (cases stk) (auto simp: stack_ok_def)
  moreover have "black_ok g (set_color st node black)" if "cycles st = []"
    using assms that nb acyclic_insert_black [of "graph_rel g" "blacks st" node]
    by (auto simp: stack_ok_def black_ok_def)
  ultimately show ?thesis using assms(1) by (auto simp: stack_ok_def)
qed

lemma stack_set_parent:
  assumes "stack_ok g stk st" and "color_of st (edgeTo e) = white"
  shows "stack_ok g stk (set_parent st e)"
proof -
  have "edgeTo e \<notin> set stk" using assms by (metis color.distinct(1) stack_ok_def)
  then show ?thesis
    using assms(1) by (simp add: stack_ok_def black_ok_def set_parent_def chain_put color_of_def
        blacks_def)
qed

lemma stack_back_edge:
  assumes "stack_ok g (node # stk) st" and "edgeFrom e = node" and "color_of st (edgeTo e) = gray"
  shows "stack_ok g (node # stk) (add_cycle st (extractCycle (parent st) e))"
    and "cycles (add_cycle st (extractCycle (parent st) e)) \<noteq> []"
proof -
  have "extract_loop (parent st) (edgeTo e) node [] [e] \<noteq> None"
    using assms by (intro extract_loop_chain) (auto simp: stack_ok_def)
  then obtain cy where "extractCycle (parent st) e = Some cy"
    using assms(2) by (auto simp: extractCycle_def)
  then show "cycles (add_cycle st (extractCycle (parent st) e)) \<noteq> []"
    by (simp add: add_cycle_def)
  then show "stack_ok g (node # stk) (add_cycle st (extractCycle (parent st) e))"
    using assms(1) by (simp add: stack_ok_def)
qed

lemma dfs_complete:
  "graph_ok g \<Longrightarrow> stack_ok g stk st \<Longrightarrow> color_of st node = white \<Longrightarrow> parent_top stk node st \<Longrightarrow>
    stack_ok g stk (dfs P ce g node st) \<and> color_of (dfs P ce g node st) node = black \<and>
    dfs_grows st (dfs P ce g node st)"
  "graph_ok g \<Longrightarrow> stack_ok g (hd0 # stk) st \<Longrightarrow> (\<forall>e \<in> set es. edgeFrom e = hd0) \<Longrightarrow>
    stack_ok g (hd0 # stk) (dfs_edges P ce g es st) \<and> dfs_grows st (dfs_edges P ce g es st) \<and>
    (cycles (dfs_edges P ce g es st) = [] \<longrightarrow> edgeTo ` set es \<subseteq> blacks (dfs_edges P ce g es st))"
proof (induction P ce g node st and P ce g es st arbitrary: stk and hd0 stk rule: dfs_dfs_edges.induct)
  case (1 P ce g node st)
  let ?st = "dfs_edges P ce g (sorted_edges P ce g node) (set_color st node gray)"
  have edges: "\<forall>e \<in> set (sorted_edges P ce g node). edgeFrom e = node"
    using "1.prems"(1) by (auto simp: graph_ok_def)
  have IH: "stack_ok g (node # stk) ?st" "dfs_grows (set_color st node gray) ?st"
    "cycles ?st = [] \<longrightarrow> edgeTo ` set (sorted_edges P ce g node) \<subseteq> blacks ?st"
    using "1.IH" [of node stk] "1.prems" edges stack_push [of g stk st node] by auto
  have "graph_rel g `` {node} \<subseteq> edgeTo ` set (sorted_edges P ce g node)"
    by (auto simp: graph_rel_def graph_edges_def)
  with IH(3) have "stack_ok g stk (set_color ?st node black)"
    by (intro stack_pop IH(1)) auto
  moreover have "dfs_grows st (set_color ?st node black)"
    using IH(2) "1.prems"(3) unfolding dfs_grows_def by (metis color_gray_add(2) color_set_color)
  ultimately show ?case using "1.prems"(3) by (simp add: dfs.simps)
next
  case (2 P ce g st)
  then show ?case by (simp add: dfs_grows_def)
next
  case (3 P ce g edge es st)
  note from_top = "3.prems"(3)
  show ?case
  proof (cases "color_of st (edgeTo edge)")
    case white
    let ?st = "dfs P ce g (edgeTo edge) (set_parent st edge)"
    have "parent_top (hd0 # stk) (edgeTo edge) (set_parent st edge)"
      using from_top by (simp add: parent_top_def set_parent_def)
    then have A: "stack_ok g (hd0 # stk) ?st" "color_of ?st (edgeTo edge) = black"
      "dfs_grows (set_parent st edge) ?st"
      using "3.IH"(1) [OF white "3.prems"(1) stack_set_parent [OF "3.prems"(2) white]] white by auto
    have B: "stack_ok g (hd0 # stk) (dfs_edges P ce g es ?st)" "dfs_grows ?st (dfs_edges P ce g es ?st)"
      "cycles (dfs_edges P ce g es ?st) = [] \<longrightarrow> edgeTo ` set es \<subseteq> blacks (dfs_edges P ce g es ?st)"
      using "3.IH"(2) [OF white "3.prems"(1) A(1)] from_top by auto
    have "dfs_grows st ?st" using A(3) by (simp add: dfs_grows_def)
    moreover have "edgeTo edge \<in> blacks (dfs_edges P ce g es ?st)"
      using A(2) B(2) by (simp add: dfs_grows_def blacks_def)
    ultimately show ?thesis
      using white B by (auto intro: dfs_grows_trans)
  next
    case gray
    let ?st = "add_cycle st (extractCycle (parent st) edge)"
    have "edgeFrom edge = hd0" using from_top by simp
    note bk = stack_back_edge [OF "3.prems"(2) this gray]
    have "stack_ok g (hd0 # stk) (dfs_edges P ce g es ?st)" "dfs_grows ?st (dfs_edges P ce g es ?st)"
      using "3.IH"(3) [OF gray "3.prems"(1) bk(1)] from_top by auto
    then show ?thesis using gray bk(2) by (auto simp: dfs_grows_def)
  next
    case black
    have "stack_ok g (hd0 # stk) (dfs_edges P ce g es st)" "dfs_grows st (dfs_edges P ce g es st)"
      "cycles (dfs_edges P ce g es st) = [] \<longrightarrow> edgeTo ` set es \<subseteq> blacks (dfs_edges P ce g es st)"
      using "3.IH"(4) [OF black "3.prems"(1,2)] from_top by auto
    then show ?thesis using black by (auto simp: dfs_grows_def blacks_def)
  qed
qed

lemma dfs_all_complete:
  assumes "graph_ok g" and "stack_ok g [] st"
  shows "stack_ok g [] (dfs_all P ce g ns st) \<and> dfs_grows st (dfs_all P ce g ns st) \<and>
    set ns \<subseteq> blacks (dfs_all P ce g ns st)"
  using assms(2)
proof (induction ns arbitrary: st)
  case Nil
  then show ?case by (simp add: dfs_grows_def)
next
  case (Cons n ns)
  let ?st = "dfs P ce g n st"
  have A: "stack_ok g [] ?st \<and> color_of ?st n = black \<and> dfs_grows st ?st"
  proof (cases "color_of st n = white")
    case True
    then show ?thesis
      using dfs_complete(1) [OF assms(1) Cons.prems] by (simp add: parent_top_def)
  next
    case False
    moreover have "color_of st n \<noteq> gray" using Cons.prems by (simp add: stack_ok_def)
    ultimately have "color_of st n = black" by (cases "color_of st n") auto
    then show ?thesis using Cons.prems False by (simp add: dfs.simps dfs_grows_def)
  qed
  with Cons.IH [of ?st] show ?case
    by (auto simp: dfs_grows_def blacks_def)
qed

lemma graph_rel_nodes:
  assumes "(a, b) \<in> graph_rel g"
  shows "a \<in> set (graph_nodes g)" and "b \<in> set (graph_nodes g)"
  using assms edges_in_nodes by (auto simp: graph_rel_def graph_edges_def)

lemma detectCycles_complete:
  assumes "graph_ok g" and "detectCycles P ce c g = []"
  shows "acyclic (graph_rel g)"
proof -
  let ?ns = "sort_slice c (mutexFieldKeyName P) (graph_nodes g)"
  let ?st = "dfs_all P ce g ?ns dfs_init"
  have "stack_ok g [] dfs_init"
    by (simp add: stack_ok_def dfs_init_def black_ok_def blacks_def color_of_def acyclic_def)
  from dfs_all_complete [OF assms(1) this, of P ce ?ns]
  have "stack_ok g [] ?st" and all: "set (graph_nodes g) \<subseteq> blacks ?st" by auto
  moreover have "cycles ?st = []"
    using assms(2) dedup_nonempty by (auto simp: detectCycles_dfs_all)
  ultimately have "acyclic (graph_rel g \<inter> blacks ?st \<times> UNIV)"
    by (simp add: stack_ok_def black_ok_def)
  moreover have "graph_rel g \<inter> blacks ?st \<times> UNIV = graph_rel g"
    using graph_rel_nodes all by fast
  ultimately show ?thesis by simp
qed

lemma walk_from_trancl:
  assumes "walk_from a es b" and "set es \<subseteq> graph_edges g" and "es \<noteq> []"
  shows "(a, b) \<in> (graph_rel g)\<^sup>+"
  using assms
proof (induction es arbitrary: a)
  case (Cons e es)
  then have e: "(a, edgeTo e) \<in> graph_rel g" by (force simp: graph_rel_def)
  with Cons show ?case by (cases "es = []") (auto intro: trancl_into_trancl2)
qed simp

text \<open>A cycle is reported exactly when there is one.\<close>

lemma detectCycles_iff:
  assumes "graph_ok g"
  shows "detectCycles P ce c g = [] \<longleftrightarrow> acyclic (graph_rel g)"
proof
  assume "acyclic (graph_rel g)"
  moreover have "\<not> acyclic (graph_rel g)" if "cy \<in> set (detectCycles P ce c g)" for cy
    using detectCycles_sound [OF assms that] walk_from_trancl unfolding is_cycle_def acyclic_def by blast
  ultimately show "detectCycles P ce c g = []" by (metis list.set_intros(1) neq_Nil_conv)
qed (rule detectCycles_complete [OF assms])

end
