(* ===== verification/Walk_Reports.thy ===== *)
theory Walk_Reports
  imports Lock_Order
begin

text \<open>
  The report functions of \<open>pkg/analyzer/reporter.go\<close> that the SSA walk calls: double and recursive
  locking, mismatched unlocks, deferred locks and inconsistent branches. Every one of them returns
  without a diagnostic when the position or the function is suppressed or the lock has no name
  (\<open>report_lock\<close>).
\<close>

definition report_lock ::
    "passContext \<Rightarrow> func \<Rightarrow> pos \<Rightarrow> lockRef \<Rightarrow> (string \<Rightarrow> diagnostic) \<Rightarrow> passContext" where
  "report_lock ctx fn p ref d =
    (if isSuppressed ctx fn p then ctx
     else let name = lockRefName (prog_of ctx) ref in
          if name = '''' then ctx else report ctx p (d name))"

definition reportDoubleLock :: "passContext \<Rightarrow> func \<Rightarrow> pos \<Rightarrow> lockRef \<Rightarrow> passContext" where
  "reportDoubleLock ctx fn p ref = report_lock ctx fn p ref DoubleLock"

definition reportRecursiveRLock :: "passContext \<Rightarrow> func \<Rightarrow> pos \<Rightarrow> lockRef \<Rightarrow> passContext" where
  "reportRecursiveRLock ctx fn p ref = report_lock ctx fn p ref RecursiveRLock"

definition reportLockUpgradeAttempt :: "passContext \<Rightarrow> func \<Rightarrow> pos \<Rightarrow> lockRef \<Rightarrow> passContext" where
  "reportLockUpgradeAttempt ctx fn p ref = report_lock ctx fn p ref LockUpgradeAttempt"

definition reportMismatchedUnlock ::
    "passContext \<Rightarrow> func \<Rightarrow> pos \<Rightarrow> lockRef \<Rightarrow> bool \<Rightarrow> string \<Rightarrow> passContext" where
  "reportMismatchedUnlock ctx fn p ref wasExclusive unlockMethod =
    report_lock ctx fn p ref (\<lambda>name. MismatchedUnlock name wasExclusive unlockMethod)"

definition reportDeferredLockInsteadOfUnlock ::
    "passContext \<Rightarrow> func \<Rightarrow> pos \<Rightarrow> lockRef \<Rightarrow> string \<Rightarrow> passContext" where
  "reportDeferredLockInsteadOfUnlock ctx fn p ref methodName =
    report_lock ctx fn p ref (\<lambda>name. DeferredLock name methodName
      (if methodName = ''RLock'' then ''RUnlock'' else ''Unlock''))"

fun blockPos_loop :: "ssa_instr list \<Rightarrow> pos" where
  "blockPos_loop [] = NoPos"
| "blockPos_loop (IPhi p # is) = blockPos_loop is"
| "blockPos_loop (i # is) = (if IsValid (instrPos i) then instrPos i else blockPos_loop is)"

definition blockPos :: "basic_block \<Rightarrow> pos" where
  "blockPos b = blockPos_loop (Instrs b)"

fun report_inconsistent :: "passContext \<Rightarrow> pos \<Rightarrow> lockRef list \<Rightarrow> lockRef list \<Rightarrow> passContext" where
  "report_inconsistent ctx p [] seen = ctx"
| "report_inconsistent ctx p (ref # refs) seen =
    (if ref \<in> set seen then report_inconsistent ctx p refs seen
     else let name = lockRefName (prog_of ctx) ref in
          report_inconsistent
            (if name = '''' then ctx else report ctx p (InconsistentLockState name))
            p refs (ref # seen))"

definition reportInconsistentLockState ::
    "passContext \<Rightarrow> func \<Rightarrow> basic_block \<Rightarrow> lockState \<Rightarrow> lockState \<Rightarrow> passContext" where
  "reportInconsistentLockState ctx fn block stateA stateB =
    (case diff (rangeOrder (pass ctx) ''diff'') stateA stateB of
       (onlyA, onlyB) \<Rightarrow>
         let p = blockPos block in
         if \<not> IsValid p then ctx
         else if isSuppressed ctx fn p then ctx
         else report_inconsistent ctx p (onlyA @ onlyB) [])"

text \<open>A report changes nothing but the list of diagnostics.\<close>

definition only_reports :: "passContext \<Rightarrow> passContext \<Rightarrow> bool" where
  "only_reports ctx ctx' \<longleftrightarrow> ctx' = ctx\<lparr>diagnostics := diagnostics ctx'\<rparr>"

lemma only_reports_refl [simp]: "only_reports ctx ctx"
  by (simp add: only_reports_def)

lemma only_reports_trans: "only_reports a b \<Longrightarrow> only_reports b c \<Longrightarrow> only_reports a c"
  by (cases a, cases b, cases c) (simp add: only_reports_def)

lemma only_reports_report [simp]: "only_reports ctx (report ctx p d)"
  by (simp add: only_reports_def report_def)

lemma only_reports_lock [simp]: "only_reports ctx (report_lock ctx fn p ref d)"
  by (simp add: report_lock_def Let_def)

lemma only_reports_walk [simp]:
  "only_reports ctx (reportDoubleLock ctx fn p ref)"
  "only_reports ctx (reportRecursiveRLock ctx fn p ref)"
  "only_reports ctx (reportLockUpgradeAttempt ctx fn p ref)"
  "only_reports ctx (reportMismatchedUnlock ctx fn p ref e m)"
  "only_reports ctx (reportDeferredLockInsteadOfUnlock ctx fn p ref m)"
  by (simp_all add: reportDoubleLock_def reportRecursiveRLock_def reportLockUpgradeAttempt_def
      reportMismatchedUnlock_def reportDeferredLockInsteadOfUnlock_def)

lemma only_reports_loop: "only_reports ctx (report_inconsistent ctx p refs seen)"
  by (induction ctx p refs seen rule: report_inconsistent.induct)
    (auto simp: Let_def intro: only_reports_trans [OF only_reports_report])

lemma only_reports_inconsistent [simp]:
  "only_reports ctx (reportInconsistentLockState ctx fn b sa sb)"
  by (simp add: reportInconsistentLockState_def Let_def only_reports_loop split: prod.splits)

lemma only_reports_frame:
  assumes "only_reports ctx ctx'"
  shows "pass ctx' = pass ctx" "srcFuncs ctx' = srcFuncs ctx" "observations ctx' = observations ctx"
    "guards ctx' = guards ctx" "observedAt ctx' = observedAt ctx" "verbose ctx' = verbose ctx"
    "callSites ctx' = callSites ctx" "funcFacts ctx' = funcFacts ctx"
    "unlockOfUnlockedCandidates ctx' = unlockOfUnlockedCandidates ctx"
    "lockLeakCandidates ctx' = lockLeakCandidates ctx"
    "deferredLockTypoReported ctx' = deferredLockTypoReported ctx"
    "orderGraph ctx' = orderGraph ctx" "concurrentFuncs ctx' = concurrentFuncs ctx"
    "annos ctx' = annos ctx"
  by (subst assms [unfolded only_reports_def], simp)+

lemmas walk_report_frame [simp] =
  only_reports_walk [THEN only_reports_frame(1)] only_reports_walk [THEN only_reports_frame(2)]
  only_reports_walk [THEN only_reports_frame(3)] only_reports_walk [THEN only_reports_frame(4)]
  only_reports_walk [THEN only_reports_frame(5)] only_reports_walk [THEN only_reports_frame(6)]
  only_reports_walk [THEN only_reports_frame(7)] only_reports_walk [THEN only_reports_frame(8)]
  only_reports_walk [THEN only_reports_frame(9)] only_reports_walk [THEN only_reports_frame(10)]
  only_reports_walk [THEN only_reports_frame(11)] only_reports_walk [THEN only_reports_frame(12)]
  only_reports_walk [THEN only_reports_frame(13)] only_reports_walk [THEN only_reports_frame(14)]

lemma isSuppressed_same:
  assumes "pass ctx' = pass ctx" "annos ctx' = annos ctx"
  shows "isSuppressed ctx' fn p = isSuppressed ctx fn p"
  unfolding isSuppressed_def assms by (rule refl)

end
