(* ===== verification/Ssa_Walk.thy ===== *)
theory Ssa_Walk
  imports Walk_Reports
begin

text \<open>
  \<open>pkg/analyzer/ssawalk.go\<close>: the walk over the control-flow graph of every function that tracks the
  held locks, records observations and call sites and collects the candidates of later phases.

  Instructions thread the pass context and the lock state, which the source mutates in place.
  \<open>walkBlock\<close> calls itself for every successor as its last action, so the pending calls form a
  stack: \<open>walkBlocks\<close> runs the calls of a stack in order, \<open>enterBlock\<close> is the part of \<open>walkBlock\<close>
  before the instructions, and \<open>walkBlock_calls\<close> in \<open>Walk_Sound\<close> recovers the recursive equation.

  On a later visit the source stores the merged state in \<open>entryStates\<close> without copying it and then
  processes the block with the same object, so that the stored state ends up as the state at the end
  of the block; \<open>storeEntry\<close> is that update. The recursion need not end: \<open>walkBlocks\<close> is
  \<open>None\<close> where the source recurses without end.
\<close>

section \<open>Normalising locks\<close>

definition normalizeLockState :: "prog \<Rightarrow> lockState \<Rightarrow> (named, heldMutexRef list) gomap" where
  "normalizeLockState P ls =
    fold (\<lambda>(k, hl) result.
      if lr_kind (hl_ref hl) \<noteq> fieldLock then result
      else case as_pointer (Underlying P (type_of P (lr_base (hl_ref hl)))) of
          None \<Rightarrow> result
        | Some elem \<Rightarrow>
            (case as_named elem of
               None \<Rightarrow> result
             | Some n \<Rightarrow> gm_append result n
                 \<lparr>hmr_FieldIndex = lr_fieldIndex (hl_ref hl), hmr_Exclusive = hl_exclusive hl\<rparr>))
      (held ls) []"

definition sameBaseMutexFields :: "val \<Rightarrow> lockState \<Rightarrow> heldMutexField list" where
  "sameBaseMutexFields base ls =
    map (\<lambda>(k, hl). \<lparr>hmf_FieldIndex = lr_fieldIndex (hl_ref hl), hmf_Exclusive = hl_exclusive hl\<rparr>)
      (filter (\<lambda>(k, hl). lr_base (hl_ref hl) = base) (held ls))"

definition isMutexReceiver :: "prog \<Rightarrow> val \<Rightarrow> bool" where
  "isMutexReceiver P v =
    (case as_pointer (type_of P v) of None \<Rightarrow> False | Some elem \<Rightarrow> isMutexType P elem)"

section \<open>Locking and unlocking\<close>

definition recordLockAcquisition :: "passContext \<Rightarrow> func \<Rightarrow> lockRef \<Rightarrow> passContext" where
  "recordLockAcquisition ctx fn ref =
    (case lockRefToMutexFieldKey (prog_of ctx) ref of
       None \<Rightarrow> ctx
     | Some mfk \<Rightarrow> updFuncFacts ctx fn (\<lambda>f. f\<lparr>Acquires := set_add (Acquires f) mfk\<rparr>))"

definition recordRelease :: "passContext \<Rightarrow> func \<Rightarrow> lockRef \<Rightarrow> passContext" where
  "recordRelease ctx fn ref =
    (case lockRefToMutexFieldKey (prog_of ctx) ref of
       None \<Rightarrow> ctx
     | Some mfk \<Rightarrow> updFuncFacts ctx fn (\<lambda>f. f\<lparr>Releases := set_add (Releases f) mfk\<rparr>))"

definition checkHeldAgain ::
    "passContext \<Rightarrow> func \<Rightarrow> pos \<Rightarrow> lockRef \<Rightarrow> bool \<Rightarrow> lockState \<Rightarrow> passContext" where
  "checkHeldAgain ctx fn p ref exclusive ls =
    (case gm_get (held ls) ref of
       None \<Rightarrow> ctx
     | Some existing \<Rightarrow>
         if exclusive \<and> hl_exclusive existing then reportDoubleLock ctx fn p ref
         else if \<not> exclusive \<and> \<not> hl_exclusive existing then reportRecursiveRLock ctx fn p ref
         else if exclusive \<and> \<not> hl_exclusive existing then reportLockUpgradeAttempt ctx fn p ref
         else reportDoubleLock ctx fn p ref)"

definition orderEdges :: "prog \<Rightarrow> func \<Rightarrow> pos \<Rightarrow> lockRef \<Rightarrow> lockRef list \<Rightarrow> lockOrderEdge list" where
  "orderEdges P fn p ref heldRefs =
    (case lockRefToMutexFieldKey P ref of
       None \<Rightarrow> []
     | Some acquiredKey \<Rightarrow>
         concat (map (\<lambda>heldRef.
           if heldRef = ref then []
           else case lockRefToMutexFieldKey P heldRef of
               None \<Rightarrow> []
             | Some heldKey \<Rightarrow>
                 [\<lparr>edgeFrom = heldKey, edgeTo = acquiredKey, edgePos = p, edgeFn = fn\<rparr>])
           heldRefs))"

definition addEdges :: "passContext \<Rightarrow> lockOrderEdge list \<Rightarrow> passContext" where
  "addEdges ctx es = ctx\<lparr>orderGraph := fold (\<lambda>e g. addEdge g e) es (orderGraph ctx)\<rparr>"

definition checkAndRecordLockAcquire ::
    "passContext \<Rightarrow> func \<Rightarrow> pos \<Rightarrow> lockRef \<Rightarrow> bool \<Rightarrow> lockState \<Rightarrow> passContext \<times> lockState" where
  "checkAndRecordLockAcquire ctx fn p ref exclusive ls =
    (let ctx1 = checkHeldAgain ctx fn p ref exclusive ls;
         ctx2 = addEdges ctx1 (orderEdges (prog_of ctx1) fn p ref
           (shuffle (rangeOrder (pass ctx1) ''checkAndRecordLockAcquire'' p) (gm_keys (held ls))));
         ctx3 = recordLockAcquisition ctx2 fn ref
     in (ctx3, lock ls ref exclusive p))"

definition checkAndRecordUnlock ::
    "passContext \<Rightarrow> func \<Rightarrow> pos \<Rightarrow> lockRef \<Rightarrow> bool \<Rightarrow> lockState \<Rightarrow> passContext \<times> lockState" where
  "checkAndRecordUnlock ctx fn p ref exclusiveUnlock ls =
    (let ctx1 =
           (case gm_get (held ls) ref of
              Some existing \<Rightarrow>
                if hl_exclusive existing \<and> \<not> exclusiveUnlock
                  then reportMismatchedUnlock ctx fn p ref True ''RUnlock''
                else if \<not> hl_exclusive existing \<and> exclusiveUnlock
                  then reportMismatchedUnlock ctx fn p ref False ''Unlock''
                else ctx
            | None \<Rightarrow> ctx\<lparr>unlockOfUnlockedCandidates := unlockOfUnlockedCandidates ctx @
                [\<lparr>uuc_Fn = fn, uuc_Pos = p, uuc_Ref = ref\<rparr>]\<rparr>)
     in (recordRelease ctx1 fn ref, unlock ls ref))"

section \<open>Deferred calls\<close>

definition resolveDeferredLockRef :: "prog \<Rightarrow> call_common \<Rightarrow> lockRef option \<times> string" where
  "resolveDeferredLockRef P common =
    (let target =
           (if IsInvoke common
            then (case ccMethod common of None \<Rightarrow> None | Some m \<Rightarrow> Some (m, ccValue common))
            else case StaticCallee common of
                None \<Rightarrow> None
              | Some callee \<Rightarrow>
                  (case Args common of [] \<Rightarrow> None | a # _ \<Rightarrow> Some (fnName (func_at P callee), a)))
     in case target of
          None \<Rightarrow> (None, '''')
        | Some (methodName, recv) \<Rightarrow>
            if \<not> isLockMethod methodName then (None, '''')
            else if isMutexReceiver P recv then (resolveLockRef P recv, methodName)
            else (resolveEmbeddedMutexRef P recv methodName, methodName))"

definition checkDeferredUnlockMismatch ::
    "passContext \<Rightarrow> func \<Rightarrow> pos \<Rightarrow> call_common \<Rightarrow> lockState \<Rightarrow> passContext" where
  "checkDeferredUnlockMismatch ctx fn p common ls =
    (case resolveDeferredLockRef (prog_of ctx) common of
       (None, m) \<Rightarrow> ctx
     | (Some ref, m) \<Rightarrow>
         if isLockAcquire m then ctx
         else case gm_get (held ls) ref of
             None \<Rightarrow> ctx
           | Some existing \<Rightarrow>
               let exclusiveUnlock = isExclusiveUnlock m in
               if hl_exclusive existing \<and> \<not> exclusiveUnlock
                 then reportMismatchedUnlock ctx fn p ref True ''RUnlock''
               else if \<not> hl_exclusive existing \<and> exclusiveUnlock
                 then reportMismatchedUnlock ctx fn p ref False ''Unlock''
               else ctx)"

definition checkDeferredLockInsteadOfUnlock ::
    "passContext \<Rightarrow> func \<Rightarrow> pos \<Rightarrow> call_common \<Rightarrow> passContext" where
  "checkDeferredLockInsteadOfUnlock ctx fn p common =
    (case resolveDeferredLockRef (prog_of ctx) common of
       (None, m) \<Rightarrow> ctx
     | (Some ref, m) \<Rightarrow>
         if \<not> isLockAcquire m then ctx
         else let ctx1 = reportDeferredLockInsteadOfUnlock ctx fn p ref m in
              ctx1\<lparr>deferredLockTypoReported :=
                set_add (deferredLockTypoReported ctx1) \<lparr>dlt_fn = fn, dlt_ref = ref\<rparr>\<rparr>)"

text \<open>\<open>d.Parent()\<close> is the function whose block holds the instruction.\<close>

definition recordDeferredUnlock ::
    "passContext \<Rightarrow> func \<Rightarrow> call_common \<Rightarrow> lockState \<Rightarrow> passContext \<times> lockState" where
  "recordDeferredUnlock ctx parentFn common ls =
    (case resolveDeferredLockRef (prog_of ctx) common of
       (None, m) \<Rightarrow> (ctx, ls)
     | (Some ref, m) \<Rightarrow>
         if isLockAcquire m then (ctx, ls)
         else (recordRelease ctx parentFn ref, deferUnlock ls ref))"

section \<open>Returns and calls\<close>

definition checkReturnWithHeldLocks ::
    "passContext \<Rightarrow> func \<Rightarrow> pos \<Rightarrow> lockState \<Rightarrow> passContext" where
  "checkReturnWithHeldLocks ctx fn retPos ls =
    (let cleared = gm_del (lockLeakCandidates ctx) retPos;
         candidates =
           concat (map (\<lambda>ref. case gm_get (held ls) ref of
               None \<Rightarrow> []
             | Some hl \<Rightarrow>
                 if ref \<in> set (deferredUnlocks ls) then []
                 else [\<lparr>llc_Fn = fn, llc_Pos = retPos, llc_Ref = ref, llc_AcquirePos = hl_pos hl\<rparr>])
             (shuffle (rangeOrder (pass ctx) ''checkReturnWithHeldLocks'' retPos)
               (gm_keys (held ls))))
     in ctx\<lparr>lockLeakCandidates :=
          (if candidates \<noteq> [] then gm_put cleared retPos candidates else cleared)\<rparr>)"

definition recordCallSite ::
    "passContext \<Rightarrow> func \<Rightarrow> func \<Rightarrow> pos \<Rightarrow> lockState \<Rightarrow> val option \<Rightarrow> passContext" where
  "recordCallSite ctx caller callee p ls receiver =
    ctx\<lparr>callSites := callSites ctx @
      [\<lparr>Caller = caller, Callee = callee, csPos = p,
        HeldByStructType = normalizeLockState (prog_of ctx) ls, ReceiverValue = receiver\<rparr>]\<rparr>"

definition lockOrUnlock ::
    "passContext \<Rightarrow> func \<Rightarrow> pos \<Rightarrow> lockRef option \<Rightarrow> string \<Rightarrow> lockState \<Rightarrow> passContext \<times> lockState" where
  "lockOrUnlock ctx fn p ref methodName ls =
    (case ref of
       None \<Rightarrow> (ctx, ls)
     | Some r \<Rightarrow>
         if isLockAcquire methodName
           then checkAndRecordLockAcquire ctx fn p r (isExclusiveLock methodName) ls
         else checkAndRecordUnlock ctx fn p r (isExclusiveUnlock methodName) ls)"

definition processCall ::
    "passContext \<Rightarrow> func \<Rightarrow> pos \<Rightarrow> call_common \<Rightarrow> lockState \<Rightarrow> passContext \<times> lockState" where
  "processCall ctx fn p common ls =
    (let P = prog_of ctx in
     if IsInvoke common then
       (case ccMethod common of
          None \<Rightarrow> (ctx, ls)
        | Some methodName \<Rightarrow>
            if isLockMethod methodName
            then lockOrUnlock ctx fn p (resolveLockRef P (ccValue common)) methodName ls
            else (ctx, ls))
     else case StaticCallee common of
         None \<Rightarrow> (ctx, ls)
       | Some callee \<Rightarrow>
           (case Args common of
              [] \<Rightarrow> (ctx, ls)
            | recvVal # _ \<Rightarrow>
                let methodName = fnName (func_at P callee) in
                if isLockMethod methodName then
                  lockOrUnlock ctx fn p
                    (if isMutexReceiver P recvVal then resolveLockRef P recvVal
                     else resolveEmbeddedMutexRef P recvVal methodName)
                    methodName ls
                else
                  (recordCallSite ctx fn callee p ls
                     (if sigRecv (func_at P callee) \<noteq> None then Some recvVal else None), ls)))"

section \<open>Field accesses\<close>

definition addObservation ::
    "passContext \<Rightarrow> func \<Rightarrow> bool \<Rightarrow> pos \<Rightarrow> lockState \<Rightarrow> val \<times> nat \<times> named \<Rightarrow> passContext" where
  "addObservation ctx fn isRead p ls acc =
    (case acc of (base, fieldIdx, structType) \<Rightarrow>
       let key = \<lparr>fk_StructType = structType, fk_FieldIndex = fieldIdx\<rparr>;
           ok2 = \<lparr>ok_field = key, ok_pos = p, ok_isRead = isRead\<rparr>
       in if ok2 \<in> set (observedAt ctx) then ctx
          else ctx\<lparr>observedAt := set_add (observedAt ctx) ok2,
             observations := gm_append (observations ctx) key
               \<lparr>SameBaseMutexFields = sameBaseMutexFields base ls, IsRead = isRead, obsFunc = fn,
                obsPos = p\<rparr>\<rparr>)"

text \<open>The access is to a field of a struct, and the field is no mutex.\<close>

definition observable :: "prog \<Rightarrow> val \<times> nat \<times> named \<Rightarrow> bool" where
  "observable P acc =
    (case acc of (base, fieldIdx, structType) \<Rightarrow>
       case as_struct (Underlying P (Named structType)) of
         None \<Rightarrow> False
       | Some fs \<Rightarrow> fieldIdx < length fs \<and> \<not> isMutexType P (fieldType (fs ! fieldIdx)))"

text \<open>The field accesses that the loop of \<open>recordAncestorObservations\<close> records, in order.\<close>

function ancestor_chain :: "prog \<Rightarrow> val \<Rightarrow> val list \<Rightarrow> (val \<times> nat \<times> named) list" where
  "ancestor_chain P current seen =
    (if current \<in> set seen then []
     else case kind_of P (unwrapSSAValue P current) of
         FieldAddr x i \<Rightarrow>
           (case resolveFieldAccess P (unwrapSSAValue P current) of
              None \<Rightarrow> []
            | Some acc \<Rightarrow>
                if \<not> observable P acc then [] else acc # ancestor_chain P x (current # seen))
       | _ \<Rightarrow> [])"
  by pat_completeness auto
termination
proof (relation "measure (\<lambda>(P, current, seen). open_vals P seen)", goal_cases)
  case (2 P current seen x i acc)
  have "kind_of P current \<noteq> OtherValue"
    using 2(2) unwrap_non_phi [of P current] by (auto simp: phi_edges_def)
  then have "open_vals P (current # seen) < open_vals P seen"
    using 2(1) by (intro open_vals_less [of _ _ current]) auto
  then show ?case by simp
qed simp

declare ancestor_chain.simps [simp del]

definition recordAncestorObservations ::
    "passContext \<Rightarrow> func \<Rightarrow> val \<Rightarrow> bool \<Rightarrow> pos \<Rightarrow> lockState \<Rightarrow> passContext" where
  "recordAncestorObservations ctx fn primaryX isRead p ls =
    fold (\<lambda>acc ctx. addObservation ctx fn isRead p ls acc)
      (ancestor_chain (prog_of ctx) primaryX []) ctx"

definition processAccess ::
    "passContext \<Rightarrow> func \<Rightarrow> val \<Rightarrow> bool \<Rightarrow> pos \<Rightarrow> lockState \<Rightarrow> passContext" where
  "processAccess ctx fn addr isRead p ls =
    (let P = prog_of ctx in
     case resolveFieldAccess P addr of
       None \<Rightarrow> ctx
     | Some (base, fieldIdx, structType) \<Rightarrow>
         if \<not> observable P (base, fieldIdx, structType) then ctx
         else if \<lparr>ok_field = \<lparr>fk_StructType = structType, fk_FieldIndex = fieldIdx\<rparr>, ok_pos = p,
             ok_isRead = isRead\<rparr> \<in> set (observedAt ctx) then ctx
         else let ctx1 = addObservation ctx fn isRead p ls (base, fieldIdx, structType) in
              case kind_of P addr of
                FieldAddr x i \<Rightarrow> recordAncestorObservations ctx1 fn x isRead p ls
              | _ \<Rightarrow> ctx1)"

definition processStore :: "passContext \<Rightarrow> func \<Rightarrow> pos \<Rightarrow> val \<Rightarrow> lockState \<Rightarrow> passContext" where
  "processStore ctx fn p addr ls = processAccess ctx fn addr False p ls"

definition processRead :: "passContext \<Rightarrow> func \<Rightarrow> pos \<Rightarrow> val \<Rightarrow> lockState \<Rightarrow> passContext" where
  "processRead ctx fn p x ls = processAccess ctx fn x True p ls"

section \<open>Instructions and blocks\<close>

fun processInstruction ::
    "passContext \<Rightarrow> func \<Rightarrow> ssa_instr \<Rightarrow> lockState \<Rightarrow> passContext \<times> lockState" where
  "processInstruction ctx fn (ICall p common) ls = processCall ctx fn p common ls"
| "processInstruction ctx fn (IDefer p common) ls =
    (let ctx1 = checkDeferredUnlockMismatch ctx fn p common ls;
         ctx2 = checkDeferredLockInsteadOfUnlock ctx1 fn p common
     in recordDeferredUnlock ctx2 fn common ls)"
| "processInstruction ctx fn (IReturn p) ls = (checkReturnWithHeldLocks ctx fn p ls, ls)"
| "processInstruction ctx fn (IStore p addr v) ls = (processStore ctx fn p addr ls, ls)"
| "processInstruction ctx fn (IUnOp p x) ls = (processRead ctx fn p x ls, ls)"
| "processInstruction ctx fn i ls = (ctx, ls)"

fun processBlock ::
    "passContext \<Rightarrow> func \<Rightarrow> ssa_instr list \<Rightarrow> lockState \<Rightarrow> passContext \<times> lockState" where
  "processBlock ctx fn [] ls = (ctx, ls)"
| "processBlock ctx fn (i # is) ls =
    (case processInstruction ctx fn i ls of (ctx', ls') \<Rightarrow> processBlock ctx' fn is ls')"

record walkContext =
  wc_fn :: func
  entryStates :: "(nat, lockState) gomap"
  exitStates :: "(nat, lockState) gomap"
  inconsistentLockReported :: "nat list"

definition isBackEdge :: "ssa_func \<Rightarrow> nat \<Rightarrow> nat \<Rightarrow> bool" where
  "isBackEdge f from to = Dominates f to from"

text \<open>The part of \<open>walkBlock\<close> before the instructions: \<open>None\<close> when it returns there, otherwise the
  state the instructions start from.\<close>

definition enterBlock ::
    "ssa_func \<Rightarrow> passContext \<Rightarrow> walkContext \<Rightarrow> nat \<Rightarrow> nat option \<Rightarrow> lockState \<Rightarrow>
      passContext \<times> walkContext \<times> lockState option" where
  "enterBlock f ctx w b fromBlock ls =
    (case gm_get (entryStates w) b of
       Some prevEntry \<Rightarrow>
         if equalHeld ls prevEntry then (ctx, w, None)
         else let merged = intersect prevEntry ls;
                  rep = b \<notin> set (inconsistentLockReported w) \<and> fromBlock \<noteq> None \<and>
                    1 < length (Preds (Blocks f ! b)) \<and> \<not> isBackEdge f (the fromBlock) b;
                  ctx1 = (if rep then reportInconsistentLockState ctx (wc_fn w) (Blocks f ! b) prevEntry ls
                    else ctx);
                  w1 = (if rep then w\<lparr>inconsistentLockReported :=
                      set_add (inconsistentLockReported w) b\<rparr> else w)
              in if equalHeld merged prevEntry then (ctx1, w1, None)
                 else (ctx1, w1\<lparr>entryStates := gm_put (entryStates w1) b merged\<rparr>, Some merged)
     | None \<Rightarrow> (ctx, w\<lparr>entryStates := gm_put (entryStates w) b (fork ls)\<rparr>, Some ls))"

text \<open>The entry in \<open>entryStates\<close> after the instructions have run: on a later visit the stored state is the
  object they have changed.\<close>

definition storeEntry :: "walkContext \<Rightarrow> walkContext \<Rightarrow> nat \<Rightarrow> lockState \<Rightarrow> walkContext" where
  "storeEntry w w1 b ls =
    (case gm_get (entryStates w) b of
       None \<Rightarrow> w1
     | Some prevEntry \<Rightarrow> w1\<lparr>entryStates := gm_put (entryStates w1) b ls\<rparr>)"

text \<open>One call of \<open>walkBlock\<close> up to its recursive calls: the new context and the calls that are pending
  then. A call for a block outside the function (no such pointer exists) is skipped.\<close>

type_synonym walkCall = "nat \<times> nat option \<times> lockState"

definition walkStep ::
    "ssa_func \<Rightarrow> passContext \<Rightarrow> walkContext \<Rightarrow> walkCall \<Rightarrow> passContext \<times> walkContext \<times> walkCall list" where
  "walkStep f ctx w call =
    (case call of (b, fromBlock, ls) \<Rightarrow>
       if length (Blocks f) \<le> b then (ctx, w, [])
       else case enterBlock f ctx w b fromBlock ls of
           (ctx1, w1, None) \<Rightarrow> (ctx1, w1, [])
         | (ctx1, w1, Some ls1) \<Rightarrow>
             (case processBlock ctx1 (wc_fn w1) (Instrs (Blocks f ! b)) ls1 of
                (ctx2, ls2) \<Rightarrow>
                  (ctx2, (storeEntry w w1 b ls2)\<lparr>exitStates := gm_put (exitStates w1) b (fork ls2)\<rparr>,
                   map (\<lambda>succ. (succ, Some b, fork ls2)) (Succs (Blocks f ! b)))))"

partial_function (option) walkBlocks ::
    "ssa_func \<Rightarrow> passContext \<Rightarrow> walkContext \<Rightarrow> walkCall list \<Rightarrow> (passContext \<times> walkContext) option" where
  "walkBlocks f ctx w pending =
    (if pending = [] then Some (ctx, w)
     else case walkStep f ctx w (hd pending) of
       (ctx', w', new) \<Rightarrow> walkBlocks f ctx' w' (new @ tl pending))"

declare walkBlocks.simps [code]

definition walkBlock ::
    "ssa_func \<Rightarrow> passContext \<Rightarrow> walkContext \<Rightarrow> nat \<Rightarrow> nat option \<Rightarrow> lockState \<Rightarrow>
      (passContext \<times> walkContext) option" where
  "walkBlock f ctx w b fromBlock ls = walkBlocks f ctx w [(b, fromBlock, ls)]"

definition newWalkContext :: "func \<Rightarrow> walkContext" where
  "newWalkContext fn =
    \<lparr>wc_fn = fn, entryStates = [], exitStates = [], inconsistentLockReported = []\<rparr>"

definition walkFunction :: "passContext \<Rightarrow> func \<Rightarrow> passContext option" where
  "walkFunction ctx fn =
    (let f = func_at (prog_of ctx) fn in
     if Blocks f = [] then Some ctx
     else map_option fst (walkBlock f ctx (newWalkContext fn) 0 None newLockState))"

definition collectObservations :: "passContext \<Rightarrow> passContext option" where
  "collectObservations ctx =
    fold (\<lambda>fn r. Option.bind r (\<lambda>ctx. walkFunction ctx fn)) (srcFuncs ctx) (Some ctx)"

end
