(* ===== verification/Inference.thy ===== *)
theory Inference
  imports Ssa_Walk
begin

text \<open>
  \<open>pkg/analyzer/inference.go\<close>: which mutex guards a field. \<open>pickMostFrequentMutex\<close> returns \<open>-1\<close> for
  "no mutex", as the source does, and ranges over the counts in the order \<open>c\<close>; the result is the
  least of the most frequent indices whatever that order is. \<open>inferGuards\<close> treats every field by
  itself, so the order of its own loop does not matter.
\<close>

section \<open>Operations\<close>

definition returnsStructType :: "prog \<Rightarrow> func \<Rightarrow> named \<Rightarrow> bool" where
  "returnsStructType P fn structType =
    list_ex (\<lambda>rt. IdenticalNamed P rt structType \<or>
        (case as_pointer rt of None \<Rightarrow> False | Some elem \<Rightarrow> IdenticalNamed P elem structType))
      (sigResults (func_at P fn))"

definition isConstructorLike :: "prog \<Rightarrow> func \<Rightarrow> named \<Rightarrow> bool" where
  "isConstructorLike P fn structType =
    (let name = fnName (func_at P fn); structName = objName (named_at P structType) in
     if name = ''init'' \<or> HasPrefix name ''init#'' then True
     else if returnsStructType P fn structType then True
     else list_ex (\<lambda>pre. HasPrefix name pre \<and> Contains name structName)
       [''New'', ''Make'', ''Create''])"

definition isImmutableField :: "observation list \<Rightarrow> bool" where
  "isImmutableField filteredObs = (\<not> list_ex (\<lambda>obs. \<not> IsRead obs) filteredObs)"

definition countHeld :: "fieldKey \<Rightarrow> heldMutexField list \<Rightarrow> (nat, nat) gomap \<Rightarrow> (nat, nat) gomap" where
  "countHeld key hmfs counts =
    fold (\<lambda>hmf counts.
        if hmf_FieldIndex hmf = fk_FieldIndex key then counts
        else gm_put counts (hmf_FieldIndex hmf)
          (case gm_get counts (hmf_FieldIndex hmf) of None \<Rightarrow> 1 | Some n \<Rightarrow> Suc n))
      hmfs counts"

definition countMutexes :: "fieldKey \<Rightarrow> observation list \<Rightarrow> bool \<Rightarrow> (nat, nat) gomap" where
  "countMutexes key obs writesOnly =
    fold (\<lambda>ob counts. if writesOnly \<and> IsRead ob then counts
        else countHeld key (SameBaseMutexFields ob) counts)
      obs []"

definition pickBest :: "(nat, nat) gomap \<Rightarrow> nat list \<Rightarrow> int \<times> nat" where
  "pickBest counts order =
    fold (\<lambda>fieldIdx (best, bestCount).
        let count = (case gm_get counts fieldIdx of None \<Rightarrow> 0 | Some n \<Rightarrow> n) in
        if bestCount < count \<or> (count = bestCount \<and> (best = -1 \<or> int fieldIdx < best))
        then (int fieldIdx, count) else (best, bestCount))
      order (-1, 0)"

definition pickMostFrequentMutex ::
    "(nat \<Rightarrow> nat) \<Rightarrow> fieldKey \<Rightarrow> observation list \<Rightarrow> bool \<Rightarrow> int" where
  "pickMostFrequentMutex c key obs writesOnly =
    (let counts = countMutexes key obs writesOnly
     in fst (pickBest counts (shuffle c (gm_keys counts))))"

definition inferFieldGuard ::
    "(nat \<Rightarrow> nat) \<Rightarrow> fieldKey \<Rightarrow> observation list \<Rightarrow> guardInfo option" where
  "inferFieldGuard c key obs =
    (let best0 = pickMostFrequentMutex c key obs True;
         best = (if best0 = -1 then pickMostFrequentMutex c key obs False else best0)
     in if best = -1 then None
        else Some \<lparr>MutexFieldIndex = nat best,
          NeedsExclusive = list_ex (\<lambda>ob. \<not> IsRead ob \<and>
            list_ex (\<lambda>hmf. int (hmf_FieldIndex hmf) = best) (SameBaseMutexFields ob)) obs\<rparr>)"

definition guardFor :: "passContext \<Rightarrow> fieldKey \<Rightarrow> observation list \<Rightarrow> guardInfo option" where
  "guardFor ctx key obs =
    (let P = prog_of ctx in
     if obj_pkg P (fk_StructType key) \<noteq> Some (passPkg (pass ctx)) then None
     else let filtered = filter (\<lambda>ob. \<not> isConstructorLike P (obsFunc ob) (fk_StructType key)) obs in
          if filtered = [] then None
          else if isImmutableField filtered then None
          else inferFieldGuard (rangeOrder (pass ctx) ''pickMostFrequentMutex'' 0) key filtered)"

definition inferGuards :: "passContext \<Rightarrow> passContext" where
  "inferGuards ctx =
    ctx\<lparr>guards := fold (\<lambda>(key, obs) gs.
        case guardFor ctx key obs of None \<Rightarrow> gs | Some guard \<Rightarrow> gm_put gs key guard)
      (observations ctx) (guards ctx)\<rparr>"

section \<open>The most frequent mutex\<close>

text \<open>How often a mutex index occurs in the observations that count.\<close>

definition held_occurrences :: "fieldKey \<Rightarrow> observation list \<Rightarrow> bool \<Rightarrow> nat \<Rightarrow> nat" where
  "held_occurrences key obs writesOnly i =
    (if i = fk_FieldIndex key then 0
     else sum_list (map (\<lambda>ob. if writesOnly \<and> IsRead ob then 0
       else count_list (map hmf_FieldIndex (SameBaseMutexFields ob)) i) obs))"

definition count_of :: "(nat, nat) gomap \<Rightarrow> nat \<Rightarrow> nat" where
  "count_of counts i = (case gm_get counts i of None \<Rightarrow> 0 | Some n \<Rightarrow> n)"

lemma count_of_put [simp]: "count_of (gm_put m k n) i = (if i = k then n else count_of m i)"
  by (simp add: count_of_def)

lemma countHeld_count:
  "count_of (countHeld key hmfs m) i =
    count_of m i + (if i = fk_FieldIndex key then 0 else count_list (map hmf_FieldIndex hmfs) i)"
proof (induction hmfs arbitrary: m)
  case (Cons h hs)
  have "count_of (gm_put m (hmf_FieldIndex h)
      (case gm_get m (hmf_FieldIndex h) of None \<Rightarrow> 1 | Some n \<Rightarrow> Suc n)) i =
      count_of m i + (if i = hmf_FieldIndex h then 1 else 0)"
    by (auto simp: count_of_def split: option.splits)
  with Cons show ?case by (auto simp: countHeld_def)
qed (simp add: countHeld_def)

lemma countMutexes_count: "count_of (countMutexes key obs wo) i = held_occurrences key obs wo i"
proof -
  have "count_of (fold (\<lambda>ob counts. if wo \<and> IsRead ob then counts
        else countHeld key (SameBaseMutexFields ob) counts) obs m) i =
      count_of m i + held_occurrences key obs wo i" for m
    by (induction obs arbitrary: m) (auto simp: held_occurrences_def countHeld_count)
  then show ?thesis by (simp add: countMutexes_def count_of_def)
qed

lemma countHeld_keys:
  assumes "\<forall>k n. gm_get m k = Some n \<longrightarrow> 0 < n"
  shows "gm_get (countHeld key hmfs m) k = Some n \<Longrightarrow> 0 < n"
  using assms
  by (induction hmfs arbitrary: m) (auto simp: countHeld_def split: option.splits if_splits)

lemma countMutexes_keys: "i \<in> set (gm_keys (countMutexes key obs wo)) \<longleftrightarrow> 0 < held_occurrences key obs wo i"
proof -
  have "0 < n" if "gm_get (fold (\<lambda>ob counts. if wo \<and> IsRead ob then counts
        else countHeld key (SameBaseMutexFields ob) counts) obs m) k = Some n"
    and "\<forall>k n. gm_get m k = Some n \<longrightarrow> 0 < n" for k n m
    using that
  proof (induction obs arbitrary: m)
    case (Cons ob obs)
    then show ?case using countHeld_keys by (fastforce split: if_splits)
  qed simp
  from this [of "[]"] have "gm_get (countMutexes key obs wo) k = Some n \<Longrightarrow> 0 < n" for k n
    by (simp add: countMutexes_def)
  then show ?thesis
    unfolding gm_keys_get countMutexes_count [symmetric] count_of_def
    by (auto split: option.splits)
qed

text \<open>\<open>best_mutex m b\<close>: \<open>b\<close> is the least index with the largest positive count, or \<open>-1\<close>.\<close>

definition best_mutex :: "(nat \<Rightarrow> nat) \<Rightarrow> int \<Rightarrow> bool" where
  "best_mutex occ b \<longleftrightarrow>
    (b = -1 \<and> (\<forall>i. occ i = 0)) \<or>
    (\<exists>i. b = int i \<and> 0 < occ i \<and> (\<forall>j. occ j \<le> occ i \<and> (occ j = occ i \<longrightarrow> i \<le> j)))"

lemma best_mutex_unique: "best_mutex occ b \<Longrightarrow> best_mutex occ b' \<Longrightarrow> b = b'"
  unfolding best_mutex_def by (metis le_antisym less_irrefl_nat)

definition best_among :: "(nat, nat) gomap \<Rightarrow> nat set \<Rightarrow> int \<times> nat \<Rightarrow> bool" where
  "best_among counts S bc \<longleftrightarrow>
    (bc = (-1, 0) \<and> S = {}) \<or>
    (\<exists>i \<in> S. bc = (int i, count_of counts i) \<and> (\<forall>j \<in> S. count_of counts j \<le> count_of counts i \<and>
      (count_of counts j = count_of counts i \<longrightarrow> i \<le> j)))"

definition pick_step :: "(nat, nat) gomap \<Rightarrow> nat \<Rightarrow> int \<times> nat \<Rightarrow> int \<times> nat" where
  "pick_step counts x bc =
    (if snd bc < count_of counts x \<or> (count_of counts x = snd bc \<and> (fst bc = -1 \<or> int x < fst bc))
     then (int x, count_of counts x) else bc)"

lemma pickBest_steps: "pickBest counts order = fold (pick_step counts) order (-1, 0)"
  unfolding pickBest_def
  by (intro arg_cong [of _ _ "\<lambda>f. fold f order (-1, 0)"])
    (auto simp: fun_eq_iff pick_step_def count_of_def Let_def)

lemma pick_step_among:
  assumes "best_among counts S bc" and "0 < count_of counts x"
  shows "best_among counts (insert x S) (pick_step counts x bc)"
  using assms(1) unfolding best_among_def [of _ S]
proof (elim disjE conjE bexE)
  fix i assume i: "i \<in> S" "bc = (int i, count_of counts i)"
    and best: "\<forall>j \<in> S. count_of counts j \<le> count_of counts i \<and>
      (count_of counts j = count_of counts i \<longrightarrow> i \<le> j)"
  show ?thesis
  proof (cases "count_of counts i < count_of counts x \<or> (count_of counts x = count_of counts i \<and> x < i)")
    case True
    with i have "pick_step counts x bc = (int x, count_of counts x)" by (auto simp: pick_step_def)
    moreover have "\<forall>j \<in> insert x S. count_of counts j \<le> count_of counts x \<and>
        (count_of counts j = count_of counts x \<longrightarrow> x \<le> j)"
      using True best by fastforce
    ultimately show ?thesis unfolding best_among_def by blast
  next
    case False
    with i have "pick_step counts x bc = (int i, count_of counts i)" by (auto simp: pick_step_def)
    moreover have "\<forall>j \<in> insert x S. count_of counts j \<le> count_of counts i \<and>
        (count_of counts j = count_of counts i \<longrightarrow> i \<le> j)"
      using False best by auto
    ultimately show ?thesis using i(1) unfolding best_among_def by blast
  qed
qed (use assms(2) in \<open>auto simp: best_among_def pick_step_def\<close>)

lemma pickBest_among:
  assumes "\<forall>i \<in> set order. 0 < count_of counts i"
  shows "best_among counts (set order) (pickBest counts order)"
proof -
  have "best_among counts (S \<union> set order) (fold (pick_step counts) order bc)"
    if "best_among counts S bc" for S bc
    using that assms
  proof (induction order arbitrary: S bc)
    case (Cons x order)
    then have "best_among counts (insert x S \<union> set order) (fold (pick_step counts) order (pick_step counts x bc))"
      by (intro Cons.IH pick_step_among) simp_all
    then show ?case by simp
  qed simp
  from this [of "{}" "(-1, 0)"] show ?thesis by (simp add: best_among_def pickBest_steps)
qed

lemma pickMostFrequentMutex_best:
  "best_mutex (held_occurrences key obs wo) (pickMostFrequentMutex c key obs wo)"
proof -
  let ?counts = "countMutexes key obs wo" and ?occ = "held_occurrences key obs wo"
  let ?S = "{i. 0 < ?occ i}"
  have S: "set (shuffle c (gm_keys ?counts)) = ?S" by (auto simp: countMutexes_keys)
  have "best_among ?counts ?S (pickBest ?counts (shuffle c (gm_keys ?counts)))"
    using pickBest_among [of "shuffle c (gm_keys ?counts)" ?counts] unfolding S
    by (simp add: countMutexes_count)
  then show ?thesis
    unfolding best_among_def
  proof (elim disjE conjE bexE)
    assume "pickBest ?counts (shuffle c (gm_keys ?counts)) = (-1, 0)" and "?S = {}"
    then show ?thesis by (auto simp: best_mutex_def pickMostFrequentMutex_def Let_def)
  next
    fix i assume i: "i \<in> ?S"
      "pickBest ?counts (shuffle c (gm_keys ?counts)) = (int i, count_of ?counts i)"
      and best: "\<forall>j \<in> ?S. count_of ?counts j \<le> count_of ?counts i \<and>
        (count_of ?counts j = count_of ?counts i \<longrightarrow> i \<le> j)"
    have "?occ j \<le> ?occ i \<and> (?occ j = ?occ i \<longrightarrow> i \<le> j)" for j
      using best i(1) by (cases "?occ j = 0") (auto simp: countMutexes_count)
    with i show ?thesis by (auto simp: best_mutex_def pickMostFrequentMutex_def Let_def)
  qed
qed

section \<open>The guard of a field\<close>

lemma best_mutex_None: "best_mutex occ b \<Longrightarrow> b = -1 \<longleftrightarrow> (\<forall>i. occ i = 0)"
  by (auto simp: best_mutex_def)

lemma best_mutex_index: "best_mutex occ b \<Longrightarrow> b \<noteq> -1 \<Longrightarrow> b = int (nat b) \<and> 0 < occ (nat b)"
  by (auto simp: best_mutex_def)

lemma held_occurrences_pos:
  "0 < held_occurrences key obs wo i \<longleftrightarrow> i \<noteq> fk_FieldIndex key \<and>
    (\<exists>ob \<in> set obs. (wo \<longrightarrow> \<not> IsRead ob) \<and> i \<in> hmf_FieldIndex ` set (SameBaseMutexFields ob))"
proof (cases "i = fk_FieldIndex key")
  case False
  let ?n = "\<lambda>ob. if wo \<and> IsRead ob then 0 else count_list (map hmf_FieldIndex (SameBaseMutexFields ob)) i"
  have "held_occurrences key obs wo i = sum_list (map ?n obs)"
    using False by (simp add: held_occurrences_def)
  then have "0 < held_occurrences key obs wo i \<longleftrightarrow> (\<exists>ob \<in> set obs. ?n ob \<noteq> 0)"
    by (simp only: zero_less_iff_neq_zero sum_list_eq_0_iff) auto
  also have "\<dots> \<longleftrightarrow>
      (\<exists>ob \<in> set obs. (wo \<longrightarrow> \<not> IsRead ob) \<and> i \<in> hmf_FieldIndex ` set (SameBaseMutexFields ob))"
    by (intro bex_cong refl) (auto simp: count_list_0_iff simp flip: neq0_conv)
  finally show ?thesis using False by simp
qed (simp add: held_occurrences_def)

definition write_under :: "observation list \<Rightarrow> nat \<Rightarrow> bool" where
  "write_under obs i \<longleftrightarrow>
    (\<exists>ob \<in> set obs. \<not> IsRead ob \<and> i \<in> hmf_FieldIndex ` set (SameBaseMutexFields ob))"

lemma inferFieldGuard_cases:
  assumes "inferFieldGuard c key obs = Some g"
  obtains wo where "best_mutex (held_occurrences key obs wo) (int (MutexFieldIndex g))"
    and "wo \<or> (\<forall>i. held_occurrences key obs True i = 0)"
    and "NeedsExclusive g \<longleftrightarrow> write_under obs (MutexFieldIndex g)"
proof -
  define w where "w = pickMostFrequentMutex c key obs True"
  define a where "a = pickMostFrequentMutex c key obs False"
  have w: "best_mutex (held_occurrences key obs True) w"
    and a: "best_mutex (held_occurrences key obs False) a"
    by (simp_all add: w_def a_def pickMostFrequentMutex_best)
  define b where "b = (if w = -1 then a else w)"
  have "b \<noteq> -1" and g: "g = \<lparr>MutexFieldIndex = nat b, NeedsExclusive = list_ex (\<lambda>ob. \<not> IsRead ob \<and>
      list_ex (\<lambda>hmf. int (hmf_FieldIndex hmf) = b) (SameBaseMutexFields ob)) obs\<rparr>"
    using assms unfolding inferFieldGuard_def Let_def w_def [symmetric] a_def [symmetric]
      b_def [symmetric] by (simp_all split: if_splits)
  moreover have "b = int (nat b)"
    using best_mutex_index [OF w] best_mutex_index [OF a] \<open>b \<noteq> -1\<close> unfolding b_def by presburger
  ultimately obtain n where n: "b = int n" "MutexFieldIndex g = n" by fastforce
  have "NeedsExclusive g \<longleftrightarrow> write_under obs (MutexFieldIndex g)"
    using g n by (simp add: write_under_def list_ex_iff image_iff eq_commute [of n])
  moreover have "best_mutex (held_occurrences key obs (w \<noteq> -1)) (int (MutexFieldIndex g))"
    using w a n by (cases "w = -1") (simp_all add: b_def)
  moreover have "w \<noteq> -1 \<or> (\<forall>i. held_occurrences key obs True i = 0)"
    using best_mutex_None [OF w] by blast
  ultimately show thesis using that by blast
qed

lemma inferFieldGuard_None:
  "inferFieldGuard c key obs = None \<longleftrightarrow> (\<forall>i. held_occurrences key obs False i = 0)"
proof -
  have "held_occurrences key obs True i \<noteq> 0 \<Longrightarrow> held_occurrences key obs False i \<noteq> 0" for i
    using held_occurrences_pos [of key obs True i] held_occurrences_pos [of key obs False i] by auto
  then show ?thesis
    using best_mutex_None [OF pickMostFrequentMutex_best [of key obs True c]]
      best_mutex_None [OF pickMostFrequentMutex_best [of key obs False c]]
    by (auto simp: inferFieldGuard_def Let_def)
qed

text \<open>The guard does not depend on the order in which the counts are read.\<close>

lemma pickMostFrequentMutex_order:
  "pickMostFrequentMutex c key obs wo = pickMostFrequentMutex c' key obs wo"
  using pickMostFrequentMutex_best best_mutex_unique by blast

lemma inferFieldGuard_order: "inferFieldGuard c key obs = inferFieldGuard c' key obs"
  unfolding inferFieldGuard_def pickMostFrequentMutex_order [of c _ _ _ c'] ..

section \<open>All fields\<close>

lemma get_inferGuards:
  assumes "gm_ok (observations ctx)"
  shows "gm_get (guards (inferGuards ctx)) key =
    (case gm_get (observations ctx) key of
       None \<Rightarrow> gm_get (guards ctx) key
     | Some obs \<Rightarrow> (case guardFor ctx key obs of
         None \<Rightarrow> gm_get (guards ctx) key | Some guard \<Rightarrow> Some guard))"
proof -
  have "gm_get (fold (\<lambda>(key, obs) gs. case guardFor ctx key obs of
        None \<Rightarrow> gs | Some guard \<Rightarrow> gm_put gs key guard) m gs) key =
      (case gm_get m key of None \<Rightarrow> gm_get gs key
       | Some obs \<Rightarrow> (case guardFor ctx key obs of None \<Rightarrow> gm_get gs key | Some guard \<Rightarrow> Some guard))"
    if "gm_ok m" for m gs
    using that
  proof (induction m arbitrary: gs)
    case (Cons kv m)
    obtain k v where kv: "kv = (k, v)" by (cases kv)
    with Cons.prems have "gm_get m k = None" by (force simp: gm_ok_def gm_get_def map_of_eq_None_iff)
    with Cons kv show ?case
      by (auto simp: gm_ok_def gm_get_def [of "_ # _"] gm_get_def [of m, symmetric] split: option.splits)
  qed simp
  from this [OF assms] show ?thesis by (simp add: inferGuards_def)
qed

end
