(* ===== verification/Fixpoint.thy ===== *)
theory Fixpoint
  imports Main
begin

text \<open>
  The bounded fixed-point loops of \<open>propagateRequirements\<close> in \<open>pkg/analyzer/interprocedural.go\<close>:
  \<open>for i := 0; changed && i < maxIterations; i++\<close>. The locale \<open>closure_loop\<close> states what one pass of
  such a loop promises (it applies every rule once to what was known when the pass started, adds
  nothing that the rules do not give, and says \<open>changed\<close> when it adds something) and proves that the
  loop then computes the transitive closure of the rules, provided the bound is at least the number
  of functions the rules can reach.
\<close>

section \<open>The loop\<close>

function iterate :: "(nat \<Rightarrow> 's \<Rightarrow> 's \<times> bool) \<Rightarrow> nat \<Rightarrow> nat \<Rightarrow> 's \<Rightarrow> 's" where
  "iterate step maxIterations i s =
    (if i < maxIterations
     then case step i s of (s', changed) \<Rightarrow>
       if changed then iterate step maxIterations (Suc i) s' else s'
     else s)"
  by pat_completeness auto
termination
  by (relation "measure (\<lambda>(step, m, i, s). m - i)") auto

declare iterate.simps [simp del]

lemma iterate_invariant:
  assumes "\<And>i s s' ch. I s \<Longrightarrow> step i s = (s', ch) \<Longrightarrow> I s'"
  shows "I s \<Longrightarrow> I (iterate step n i s)"
proof (induction "n - i" arbitrary: i s)
  case (Suc d)
  obtain s' ch where st: "step i s = (s', ch)" by fastforce
  from Suc.hyps(1) [of "Suc i" s'] Suc.hyps(2) Suc.prems assms [OF Suc.prems st] show ?case
    by (subst iterate.simps) (simp add: st)
qed (simp add: iterate.simps)

section \<open>Short paths\<close>

lemma rtrancl_Image_subset: "A \<subseteq> R\<^sup>* `` B \<Longrightarrow> R\<^sup>* `` A \<subseteq> R\<^sup>* `` B"
proof (rule subsetI, elim ImageE)
  fix a b assume "A \<subseteq> R\<^sup>* `` B" and ab: "(a, b) \<in> R\<^sup>*" and "a \<in> A"
  then obtain r where "r \<in> B" "(r, a) \<in> R\<^sup>*" by blast
  with ab show "b \<in> R\<^sup>* `` B" by (meson ImageI rtrancl_trans)
qed

text \<open>A node that is reachable at all is reachable by a path that enters no node twice.\<close>

lemma relpow_cut:
  assumes f: "\<forall>i < k. (f i, f (Suc i)) \<in> G" and ij: "i < j" "j \<le> k" and eq: "f i = f j"
  shows "(f 0, f k) \<in> G ^^ (i + (k - j))"
proof -
  have "(f 0, f i) \<in> G ^^ i"
    using f ij unfolding relpow_fun_conv by (intro exI [of _ f]) auto
  moreover have "(f j, f k) \<in> G ^^ (k - j)"
    using f ij unfolding relpow_fun_conv by (intro exI [of _ "\<lambda>n. f (j + n)"]) auto
  ultimately show ?thesis using eq by (auto simp: relpow_add)
qed

lemma rtrancl_short:
  assumes fin: "finite (Range G)" and ab: "(a, b) \<in> G\<^sup>*"
  shows "\<exists>k \<le> card (Range G). (a, b) \<in> G ^^ k"
proof -
  from ab obtain k where k: "(a, b) \<in> G ^^ k" and least: "\<And>n. n < k \<Longrightarrow> (a, b) \<notin> G ^^ n"
    using exists_least_iff [of "\<lambda>k. (a, b) \<in> G ^^ k"] rtrancl_imp_relpow [OF ab] by blast
  from k obtain f where f: "f 0 = a" "f k = b" "\<forall>i < k. (f i, f (Suc i)) \<in> G"
    unfolding relpow_fun_conv by auto
  have "inj_on f {1..k}"
  proof (rule linorder_inj_onI)
    fix i j assume "i < j" "i \<in> {1..k}" "j \<in> {1..k}"
    then show "f i \<noteq> f j" using relpow_cut [OF f(3), of i j] least [of "i + (k - j)"] f(1, 2) by auto
  qed auto
  moreover have "f ` {1..k} \<subseteq> Range G"
  proof
    fix x assume "x \<in> f ` {1..k}"
    then obtain j where "x = f j" "1 \<le> j" "j \<le> k" by auto
    then have "(f (j - 1), x) \<in> G" using f(3) [rule_format, of "j - 1"] by simp
    then show "x \<in> Range G" by blast
  qed
  ultimately have "k \<le> card (Range G)"
    using card_mono [OF fin] by (metis card_atLeastAtMost card_image diff_Suc_1)
  with k show ?thesis by blast
qed

section \<open>Passes that close a relation\<close>

locale closure_loop =
  fixes known :: "'s \<Rightarrow> 'm \<Rightarrow> 'f set"
    and rules :: "'s \<Rightarrow> 'm \<Rightarrow> ('f \<times> 'f) set"
    and inv :: "'s \<Rightarrow> bool"
    and step :: "nat \<Rightarrow> 's \<Rightarrow> 's \<times> bool"
  assumes step_inv: "inv s \<Longrightarrow> step i s = (s', ch) \<Longrightarrow> inv s'"
    and step_rules: "inv s \<Longrightarrow> step i s = (s', ch) \<Longrightarrow> rules s' m = rules s m"
    and step_covers: "inv s \<Longrightarrow> step i s = (s', ch) \<Longrightarrow> known s m \<union> rules s m `` known s m \<subseteq> known s' m"
    and step_sound: "inv s \<Longrightarrow> step i s = (s', ch) \<Longrightarrow> known s' m \<subseteq> (rules s m)\<^sup>* `` known s m"
    and step_stop: "inv s \<Longrightarrow> step i s = (s', False) \<Longrightarrow> known s' m = known s m"
begin

lemma loop_inv: "inv s \<Longrightarrow> inv (iterate step n i s)"
  using step_inv by (rule iterate_invariant)

lemma loop_sound: "inv s \<Longrightarrow> known (iterate step n i s) m \<subseteq> (rules s m)\<^sup>* `` known s m"
proof (induction "n - i" arbitrary: i s)
  case 0
  then show ?case by (subst iterate.simps) auto
next
  case (Suc d)
  obtain s' ch where st: "step i s = (s', ch)" by fastforce
  have "known (iterate step n (Suc i) s') m \<subseteq> (rules s m)\<^sup>* `` known s' m"
    using Suc.hyps(1) [of "Suc i" s'] Suc.hyps(2) step_inv [OF Suc.prems st] step_rules [OF Suc.prems st]
    by auto
  also have "\<dots> \<subseteq> (rules s m)\<^sup>* `` known s m"
    by (rule rtrancl_Image_subset [OF step_sound [OF Suc.prems st]])
  finally show ?case
    using Suc.hyps(2) step_sound [OF Suc.prems st, of m] by (subst iterate.simps) (auto simp: st)
qed

lemma loop_covers:
  "inv s \<Longrightarrow> k \<le> n - i \<Longrightarrow> (rules s m ^^ k) `` known s m \<subseteq> known (iterate step n i s) m"
proof (induction "n - i" arbitrary: i s k)
  case 0
  then show ?case by (subst iterate.simps) auto
next
  case (Suc d)
  obtain s' ch where st: "step i s = (s', ch)" by fastforce
  note inv' = step_inv [OF Suc.prems(1) st] and rules' = step_rules [OF Suc.prems(1) st]
    and covers = step_covers [OF Suc.prems(1) st, of m]
  show ?case
  proof (cases ch)
    case False
    with st have same: "known s' m = known s m" by (intro step_stop [OF Suc.prems(1), of i]) simp
    then have "(rules s m)\<^sup>* `` known s m \<subseteq> known s m"
      using covers by (intro equalityD1 [OF Image_closed_trancl]) simp
    then have "(rules s m ^^ k) `` known s m \<subseteq> known s m"
      by (rule subset_trans [OF Image_mono [OF subrelI order_refl], rotated]) (rule relpow_imp_rtrancl)
    with False same st Suc.hyps(2) show ?thesis by (subst iterate.simps) simp
  next
    case True
    have "(rules s m ^^ k) `` known s m \<subseteq> known (iterate step n (Suc i) s') m"
    proof (cases k)
      case 0
      have "known s' m \<subseteq> known (iterate step n (Suc i) s') m"
        using Suc.hyps(1) [of "Suc i" s' 0] Suc.hyps(2) inv' by simp
      with covers 0 show ?thesis by auto
    next
      case k: (Suc l)
      have "(rules s m ^^ k) `` known s m \<subseteq> (rules s m ^^ l) `` known s' m"
        using covers unfolding k relpow.simps(2) relpow_commute [symmetric] by blast
      also have "\<dots> \<subseteq> known (iterate step n (Suc i) s') m"
        using Suc.hyps(1) [of "Suc i" s' l] Suc.hyps(2) Suc.prems(2) inv' k rules' by simp
      finally show ?thesis .
    qed
    moreover have "i < n" using Suc.hyps(2) by simp
    ultimately show ?thesis using True st by (subst iterate.simps) simp
  qed
qed

theorem loop_exact:
  assumes "inv s" and "finite (Range (rules s m))" and "card (Range (rules s m)) \<le> n - i"
  shows "known (iterate step n i s) m = (rules s m)\<^sup>* `` known s m"
proof
  show "(rules s m)\<^sup>* `` known s m \<subseteq> known (iterate step n i s) m"
  proof
    fix b assume "b \<in> (rules s m)\<^sup>* `` known s m"
    then obtain a where "a \<in> known s m" "(a, b) \<in> (rules s m)\<^sup>*" by blast
    with rtrancl_short [OF assms(2)] obtain k
      where "k \<le> card (Range (rules s m))" "b \<in> (rules s m ^^ k) `` known s m" by blast
    with assms loop_covers [of s k n i m] show "b \<in> known (iterate step n i s) m" by auto
  qed
qed (rule loop_sound [OF assms(1)])

end

end
