(* ===== verification/Interprocedural.thy ===== *)
theory Interprocedural
  imports Inference Fixpoint
begin

text \<open>
  \<open>pkg/analyzer/interprocedural.go\<close>: what every function requires of its callers and which locks it
  acquires with its callees. (The records of that file are in \<open>Pass_Context\<close>, \<open>normalizeLockState\<close> is
  in \<open>Ssa_Walk\<close>.)

  One pass of the first loop of \<open>propagateRequirements\<close> is \<open>reqPass\<close>. Its \<open>range\<close> over \<open>funcFacts\<close>
  inserts into the map it ranges over, and Go lets the loop visit or skip such new entries:
  \<open>visitOrder\<close> is any order of the keys together with any choice of callers not yet in the map, and a
  key that is not in the map when its turn comes is passed over. \<open>facts.Requires\<close> is not changed while
  it is ranged over, since only keys that it holds already are added to it.

  Both loops interpret \<open>closure_loop\<close>, which gives their results as transitive closures.
\<close>

section \<open>Operations\<close>

definition callerHoldsMutex :: "callSiteRecord \<Rightarrow> mutexFieldKey \<Rightarrow> bool" where
  "callerHoldsMutex cs mfk =
    (case gm_get (HeldByStructType cs) (mfk_StructType mfk) of
       None \<Rightarrow> False
     | Some heldRefs \<Rightarrow> list_ex (\<lambda>hr. hmr_FieldIndex hr = mfk_FieldIndex mfk) heldRefs)"

definition isLocalAlloc :: "prog \<Rightarrow> val \<Rightarrow> bool" where
  "isLocalAlloc P v = (case kind_of P v of Alloc heap \<Rightarrow> \<not> heap | _ \<Rightarrow> False)"

fun publishes :: "prog \<Rightarrow> val \<Rightarrow> pos \<Rightarrow> ssa_instr \<Rightarrow> bool" where
  "publishes P recv callPos (IMapUpdate p value) = (IsValid p \<and> value = recv \<and> p < callPos)"
| "publishes P recv callPos (IStore p addr v) =
    (IsValid p \<and> v = recv \<and> addr \<noteq> recv \<and> p < callPos \<and> \<not> isLocalAlloc P addr)"
| "publishes P recv callPos i = False"

definition isPrePublicationConstructorCall :: "prog \<Rightarrow> callSiteRecord \<Rightarrow> bool" where
  "isPrePublicationConstructorCall P cs =
    (case sigRecv (func_at P (Callee cs)) of
       None \<Rightarrow> False
     | Some recvType \<Rightarrow>
         (case as_pointer recvType of
            None \<Rightarrow> False
          | Some elem \<Rightarrow>
              (case as_named elem of
                 None \<Rightarrow> False
               | Some n \<Rightarrow>
                   if \<not> isConstructorLike P (Caller cs) n then False
                   else case ReceiverValue cs of
                       None \<Rightarrow> False
                     | Some recv \<Rightarrow>
                         if \<not> IsValid (csPos cs) then False
                         else \<not> list_ex (\<lambda>block. list_ex (publishes P recv (csPos cs)) (Instrs block))
                           (Blocks (func_at P (Caller cs))))))"

definition hasCallers :: "passContext \<Rightarrow> func \<Rightarrow> bool" where
  "hasCallers ctx fn = list_ex (\<lambda>cs. Callee cs = fn) (callSites ctx)"

text \<open>\<open>deriveInitialRequirements\<close>.\<close>

definition addOrigin ::
    "passContext \<Rightarrow> func \<Rightarrow> mutexFieldKey \<Rightarrow> requirementOrigin \<Rightarrow> passContext" where
  "addOrigin ctx fn mfk origin =
    (if verbose ctx
     then updFuncFacts ctx fn (\<lambda>f. f\<lparr>RequiresOrigin := gm_append (RequiresOrigin f) mfk origin\<rparr>)
     else ctx)"

definition deriveFrom ::
    "fieldKey \<Rightarrow> guardInfo \<Rightarrow> observation \<Rightarrow> passContext \<Rightarrow> passContext" where
  "deriveFrom key guard obs ctx =
    (if isConstructorLike (prog_of ctx) (obsFunc obs) (fk_StructType key) then ctx
     else if list_ex (\<lambda>hmf. hmf_FieldIndex hmf = MutexFieldIndex guard) (SameBaseMutexFields obs) then ctx
     else let mfk = \<lparr>mfk_StructType = fk_StructType key, mfk_FieldIndex = MutexFieldIndex guard\<rparr>;
              ctx1 = updFuncFacts ctx (obsFunc obs) (\<lambda>f. f\<lparr>Requires := set_add (Requires f) mfk\<rparr>)
          in addOrigin ctx1 (obsFunc obs) mfk
            \<lparr>ro_FieldKey = Some key, ro_AccessPos = obsPos obs, ro_IsRead = IsRead obs,
             ro_ViaCallee = None, ro_ViaCallPos = NoPos\<rparr>)"

definition deriveInitialRequirements :: "passContext \<Rightarrow> passContext" where
  "deriveInitialRequirements ctx =
    fold (\<lambda>key ctx'. case gm_get (guards ctx) key of
        None \<Rightarrow> ctx'
      | Some guard \<Rightarrow> fold (deriveFrom key guard) (gm_slice (observations ctx) key) ctx')
      (shuffle (rangeOrder (pass ctx) ''deriveInitialRequirements'' 0) (gm_keys (guards ctx))) ctx"

text \<open>\<open>propagateRequirements\<close>, first loop.\<close>

definition calleeToSites :: "callSiteRecord list \<Rightarrow> (func, nat list) gomap" where
  "calleeToSites sites =
    fold (\<lambda>(i, cs) m. gm_append m (Callee cs) i) (enumerate 0 sites) []"

definition addTransitiveOrigin ::
    "passContext \<Rightarrow> func \<Rightarrow> mutexFieldKey \<Rightarrow> func \<Rightarrow> pos \<Rightarrow> passContext" where
  "addTransitiveOrigin ctx caller mfk callee p =
    (if list_ex (\<lambda>existing. ro_ViaCallee existing = Some callee \<and> ro_ViaCallPos existing = p)
        (gm_slice (RequiresOrigin (factsOf ctx caller)) mfk)
     then ctx
     else addOrigin ctx caller mfk
       \<lparr>ro_FieldKey = None, ro_AccessPos = NoPos, ro_IsRead = False,
        ro_ViaCallee = Some callee, ro_ViaCallPos = p\<rparr>)"

definition reqSite ::
    "func \<Rightarrow> mutexFieldKey \<Rightarrow> callSiteRecord \<Rightarrow> passContext \<times> bool \<Rightarrow> passContext \<times> bool" where
  "reqSite callee mfk cs st =
    (case st of (ctx, changed) \<Rightarrow>
       if callerHoldsMutex cs mfk then (ctx, changed)
       else if isPrePublicationConstructorCall (prog_of ctx) cs then (ctx, changed)
       else let new = mfk \<notin> set (Requires (factsOf ctx (Caller cs)));
                ctx1 = updFuncFacts ctx (Caller cs) (\<lambda>f. f\<lparr>Requires := set_add (Requires f) mfk\<rparr>);
                ctx2 = (if verbose ctx1
                  then addTransitiveOrigin ctx1 (Caller cs) mfk callee (csPos cs) else ctx1)
            in (ctx2, changed \<or> new))"

definition reqCallee ::
    "callSiteRecord list \<Rightarrow> func \<Rightarrow> passContext \<times> bool \<Rightarrow> passContext \<times> bool" where
  "reqCallee sites callee st =
    (case gm_get (funcFacts (fst st)) callee of
       None \<Rightarrow> st
     | Some facts \<Rightarrow>
         fold (\<lambda>mfk. fold (\<lambda>siteIdx. reqSite callee mfk (sites ! siteIdx))
             (gm_slice (calleeToSites sites) callee))
           (Requires facts) st)"

definition visitOrder :: "passContext \<Rightarrow> nat \<Rightarrow> func list" where
  "visitOrder ctx i =
    (let new = filter (\<lambda>fn. fn \<notin> set (gm_keys (funcFacts ctx)) \<and>
           odd (rangeOrder (pass ctx) ''propagateRequirements.inserted'' i fn))
         (remdups (map Caller (callSites ctx)))
     in shuffle (rangeOrder (pass ctx) ''propagateRequirements'' i) (gm_keys (funcFacts ctx) @ new))"

definition reqPass :: "nat \<Rightarrow> passContext \<Rightarrow> passContext \<times> bool" where
  "reqPass i ctx = fold (reqCallee (callSites ctx)) (visitOrder ctx i) (ctx, False)"

definition maxIterations :: nat where
  "maxIterations = 1000"

text \<open>\<open>propagateRequirements\<close>, second loop.\<close>

definition seedAcquires :: "passContext \<Rightarrow> passContext" where
  "seedAcquires ctx = ctx\<lparr>funcFacts := map (\<lambda>(fn, f).
      (fn, f\<lparr>AcquiresTransitive := fold (\<lambda>mfk s. set_add s mfk) (Acquires f) (AcquiresTransitive f)\<rparr>))
    (funcFacts ctx)\<rparr>"

definition acqSite :: "callSiteRecord \<Rightarrow> passContext \<times> bool \<Rightarrow> passContext \<times> bool" where
  "acqSite cs st =
    (case st of (ctx, changed) \<Rightarrow>
       case gm_get (funcFacts ctx) (Callee cs) of
         None \<Rightarrow> (ctx, changed)
       | Some calleeFacts \<Rightarrow>
           let new = list_ex (\<lambda>mfk. mfk \<notin> set (AcquiresTransitive (factsOf ctx (Caller cs))))
                 (AcquiresTransitive calleeFacts)
           in (updFuncFacts ctx (Caller cs) (\<lambda>f. f\<lparr>AcquiresTransitive :=
                 fold (\<lambda>mfk s. set_add s mfk) (AcquiresTransitive calleeFacts) (AcquiresTransitive f)\<rparr>),
               changed \<or> new))"

definition acqPass :: "nat \<Rightarrow> passContext \<Rightarrow> passContext \<times> bool" where
  "acqPass i ctx = fold acqSite (callSites ctx) (ctx, False)"

definition propagateRequirements :: "passContext \<Rightarrow> passContext" where
  "propagateRequirements ctx =
    iterate acqPass maxIterations 0 (seedAcquires (iterate reqPass maxIterations 0 ctx))"

text \<open>\<open>collectInterproceduralLockOrderEdges\<close>. The inner loop over a map runs once per held lock: \<open>j\<close>
  numbers the held locks of a call site, \<open>choice2\<close> the runs of the loop.\<close>

definition choice2 :: "nat \<Rightarrow> nat \<Rightarrow> nat" where
  "choice2 i j = (i + j) * (i + j + 1) div 2 + j"

definition heldKeys :: "passContext \<Rightarrow> nat \<Rightarrow> callSiteRecord \<Rightarrow> mutexFieldKey list" where
  "heldKeys ctx i cs =
    concat (map (\<lambda>structType. map (\<lambda>hr. \<lparr>mfk_StructType = structType, mfk_FieldIndex = hmr_FieldIndex hr\<rparr>)
        (gm_slice (HeldByStructType cs) structType))
      (shuffle (rangeOrder (pass ctx) ''collectInterproceduralLockOrderEdges.held'' i)
        (gm_keys (HeldByStructType cs))))"

definition siteEdges :: "passContext \<Rightarrow> nat \<Rightarrow> callSiteRecord \<Rightarrow> lockOrderEdge list" where
  "siteEdges ctx i cs =
    (case gm_get (funcFacts ctx) (Callee cs) of
       None \<Rightarrow> []
     | Some calleeFacts \<Rightarrow>
         concat (map (\<lambda>(j, heldKey).
             map (\<lambda>acquiredKey. \<lparr>edgeFrom = heldKey, edgeTo = acquiredKey, edgePos = csPos cs,
                 edgeFn = Caller cs\<rparr>)
               (filter (\<lambda>acquiredKey. heldKey \<noteq> acquiredKey)
                 (shuffle (rangeOrder (pass ctx) ''collectInterproceduralLockOrderEdges'' (choice2 i j))
                   (AcquiresTransitive calleeFacts))))
           (enumerate 0 (heldKeys ctx i cs))))"

definition collectInterproceduralLockOrderEdges :: "passContext \<Rightarrow> passContext" where
  "collectInterproceduralLockOrderEdges ctx =
    addEdges ctx (concat (map (\<lambda>(i, cs). siteEdges ctx i cs) (enumerate 0 (callSites ctx))))"

section \<open>Phases that only change the function facts\<close>

definition facts_only :: "passContext \<Rightarrow> passContext \<Rightarrow> bool" where
  "facts_only ctx ctx' \<longleftrightarrow> (\<exists>facts. ctx' = ctx\<lparr>funcFacts := facts\<rparr>)"

lemma facts_only_refl [simp]: "facts_only ctx ctx"
  unfolding facts_only_def by (rule exI [of _ "funcFacts ctx"]) simp

lemma facts_only_trans: "facts_only a b \<Longrightarrow> facts_only b c \<Longrightarrow> facts_only a c"
  by (auto simp: facts_only_def)

lemma facts_only_upd [simp]: "facts_only ctx (updFuncFacts ctx fn upd)"
  by (auto simp: facts_only_def updFuncFacts_def getOrCreateFuncFacts_def split: option.splits)

lemma facts_only_addOrigin [simp]: "facts_only ctx (addOrigin ctx fn mfk o')"
  by (simp add: addOrigin_def)

lemma facts_only_same:
  assumes "facts_only ctx ctx'"
  shows "pass ctx' = pass ctx" "srcFuncs ctx' = srcFuncs ctx" "observations ctx' = observations ctx"
    "guards ctx' = guards ctx" "verbose ctx' = verbose ctx" "callSites ctx' = callSites ctx"
    "orderGraph ctx' = orderGraph ctx" "annos ctx' = annos ctx" "diagnostics ctx' = diagnostics ctx"
    "lockLeakCandidates ctx' = lockLeakCandidates ctx"
    "unlockOfUnlockedCandidates ctx' = unlockOfUnlockedCandidates ctx"
    "concurrentFuncs ctx' = concurrentFuncs ctx"
  using assms by (auto simp: facts_only_def)

text \<open>The functions that require, or that acquire, a mutex.\<close>

definition requirers :: "passContext \<Rightarrow> mutexFieldKey \<Rightarrow> func set" where
  "requirers ctx mfk = {fn. mfk \<in> set (Requires (factsOf ctx fn))}"

definition acquirers :: "passContext \<Rightarrow> mutexFieldKey \<Rightarrow> func set" where
  "acquirers ctx mfk = {fn. mfk \<in> set (AcquiresTransitive (factsOf ctx fn))}"

lemma addOrigin_facts [simp]:
  "Requires (factsOf (addOrigin ctx fn mfk o') g) = Requires (factsOf ctx g)"
  "Acquires (factsOf (addOrigin ctx fn mfk o') g) = Acquires (factsOf ctx g)"
  "AcquiresTransitive (factsOf (addOrigin ctx fn mfk o') g) = AcquiresTransitive (factsOf ctx g)"
  "pass (addOrigin ctx fn mfk o') = pass ctx"
  "guards (addOrigin ctx fn mfk o') = guards ctx"
  "observations (addOrigin ctx fn mfk o') = observations ctx"
  by (simp_all add: addOrigin_def)

lemma addTransitiveOrigin_facts [simp]:
  "Requires (factsOf (addTransitiveOrigin ctx fn mfk callee p) g) = Requires (factsOf ctx g)"
  "Acquires (factsOf (addTransitiveOrigin ctx fn mfk callee p) g) = Acquires (factsOf ctx g)"
  "AcquiresTransitive (factsOf (addTransitiveOrigin ctx fn mfk callee p) g) =
    AcquiresTransitive (factsOf ctx g)"
  "facts_only ctx (addTransitiveOrigin ctx fn mfk callee p)"
  by (simp_all add: addTransitiveOrigin_def)

section \<open>Initial requirements\<close>

text \<open>The access needs the guard of its field from the caller: it is not in a constructor, and the
  guard is not held on the instance.\<close>

definition needs_guard :: "prog \<Rightarrow> fieldKey \<Rightarrow> guardInfo \<Rightarrow> observation \<Rightarrow> bool" where
  "needs_guard P key guard obs \<longleftrightarrow>
    \<not> isConstructorLike P (obsFunc obs) (fk_StructType key) \<and>
    MutexFieldIndex guard \<notin> hmf_FieldIndex ` set (SameBaseMutexFields obs)"

definition guard_key :: "fieldKey \<Rightarrow> guardInfo \<Rightarrow> mutexFieldKey" where
  "guard_key key guard = \<lparr>mfk_StructType = fk_StructType key, mfk_FieldIndex = MutexFieldIndex guard\<rparr>"

lemma deriveFrom_facts [simp]:
  "facts_only ctx (deriveFrom key guard obs ctx)"
  "pass (deriveFrom key guard obs ctx) = pass ctx"
  "Acquires (factsOf (deriveFrom key guard obs ctx) g) = Acquires (factsOf ctx g)"
  "AcquiresTransitive (factsOf (deriveFrom key guard obs ctx) g) = AcquiresTransitive (factsOf ctx g)"
  by (auto simp: deriveFrom_def Let_def intro: facts_only_trans [OF facts_only_upd facts_only_addOrigin])

lemma requirers_deriveFrom:
  "fn \<in> requirers (deriveFrom key guard obs ctx) mfk \<longleftrightarrow> fn \<in> requirers ctx mfk \<or>
    obsFunc obs = fn \<and> needs_guard (prog_of ctx) key guard obs \<and> mfk = guard_key key guard"
  by (auto simp: deriveFrom_def Let_def requirers_def needs_guard_def guard_key_def list_ex_iff image_iff)

lemma requirers_deriveFroms:
  "fn \<in> requirers (fold (deriveFrom key guard) obss ctx) mfk \<longleftrightarrow> fn \<in> requirers ctx mfk \<or>
    (\<exists>obs \<in> set obss. obsFunc obs = fn \<and> needs_guard (prog_of ctx) key guard obs \<and> mfk = guard_key key guard)"
  by (induction obss arbitrary: ctx) (auto simp: requirers_deriveFrom)

lemma deriveFroms_pass [simp]: "pass (fold (deriveFrom key guard) obss ctx) = pass ctx"
  by (induction obss arbitrary: ctx) simp_all

lemma deriveInitialRequirements_spec:
  "fn \<in> requirers (deriveInitialRequirements ctx) mfk \<longleftrightarrow> fn \<in> requirers ctx mfk \<or>
    (\<exists>key guard obs. gm_get (guards ctx) key = Some guard \<and>
      obs \<in> set (gm_slice (observations ctx) key) \<and> obsFunc obs = fn \<and>
      needs_guard (prog_of ctx) key guard obs \<and> mfk = guard_key key guard)"
proof -
  let ?f = "\<lambda>key ctx'. case gm_get (guards ctx) key of
        None \<Rightarrow> ctx'
      | Some guard \<Rightarrow> fold (deriveFrom key guard) (gm_slice (observations ctx) key) ctx'"
  have *: "fn \<in> requirers (fold ?f keys c) mfk \<longleftrightarrow> fn \<in> requirers c mfk \<or>
      (\<exists>key \<in> set keys. \<exists>guard obs. gm_get (guards ctx) key = Some guard \<and>
        obs \<in> set (gm_slice (observations ctx) key) \<and> obsFunc obs = fn \<and>
        needs_guard (passProg (pass c)) key guard obs \<and> mfk = guard_key key guard)" for keys c
  proof (induction keys arbitrary: c)
    case (Cons key keys)
    have "pass (?f key c) = pass c" by (simp split: option.splits)
    with Cons.IH [of "?f key c"] show ?case
      by (auto simp: requirers_deriveFroms split: option.splits)
  qed simp
  show ?thesis unfolding deriveInitialRequirements_def * set_shuffle Bex_def gm_keys_get by auto
qed

section \<open>Propagation of requirements\<close>

lemma calleeToSites_sites:
  "map ((!) sites) (gm_slice (calleeToSites sites) callee) = filter (\<lambda>cs. Callee cs = callee) sites"
proof -
  have "gm_slice (fold (\<lambda>(i, cs) m. gm_append m (Callee cs) i) ics m) callee =
      gm_slice m callee @ map fst (filter (\<lambda>(i, cs). Callee cs = callee) ics)"
    for ics :: "(nat \<times> callSiteRecord) list" and m
    by (induction ics arbitrary: m) auto
  then have "gm_slice (calleeToSites sites) callee =
      map fst (filter (\<lambda>(i, cs). Callee cs = callee) (enumerate 0 sites))"
    by (simp add: calleeToSites_def)
  then have "map ((!) sites) (gm_slice (calleeToSites sites) callee) =
      map snd (filter (\<lambda>(i, cs). Callee cs = callee) (enumerate 0 sites))"
    by (auto simp: in_set_enumerate_eq)
  also have "\<dots> = filter (\<lambda>cs. Callee cs = callee) (map snd (enumerate 0 sites))"
    unfolding filter_map comp_def case_prod_beta ..
  finally show ?thesis by simp
qed

text \<open>One pass of the loop is a fold of \<open>reqSite\<close> over the call sites of the visited functions.\<close>

lemma reqCallee_sites:
  "reqCallee sites callee st =
    (case gm_get (funcFacts (fst st)) callee of
       None \<Rightarrow> st
     | Some facts \<Rightarrow> fold (\<lambda>mfk. fold (reqSite callee mfk) (filter (\<lambda>cs. Callee cs = callee) sites))
         (Requires facts) st)"
  unfolding reqCallee_def calleeToSites_sites [symmetric] fold_map comp_def ..

text \<open>A requirement passes from the callee to the caller at a call site where the caller does not hold
  the mutex and which is not a constructor's call before publication.\<close>

definition req_rel :: "passContext \<Rightarrow> mutexFieldKey \<Rightarrow> (func \<times> func) set" where
  "req_rel ctx mfk = {(Callee cs, Caller cs) |cs. cs \<in> set (callSites ctx) \<and>
    \<not> callerHoldsMutex cs mfk \<and> \<not> isPrePublicationConstructorCall (prog_of ctx) cs}"

definition req_ok :: "passContext \<Rightarrow> passContext \<times> bool \<Rightarrow> bool" where
  "req_ok ctx0 st \<longleftrightarrow> facts_only ctx0 (fst st) \<and>
    (\<forall>m. requirers ctx0 m \<subseteq> requirers (fst st) m \<and>
      requirers (fst st) m \<subseteq> (req_rel ctx0 m)\<^sup>* `` requirers ctx0 m) \<and>
    (\<not> snd st \<longrightarrow> (\<forall>m. requirers (fst st) m = requirers ctx0 m))"

lemma reqSite_facts_only: "facts_only (fst st) (fst (reqSite callee mfk cs st))"
  by (cases st) (auto simp: reqSite_def Let_def intro: facts_only_trans [OF facts_only_upd]
      addTransitiveOrigin_facts(4))

lemma requirers_reqSite:
  "requirers (fst (reqSite callee mfk cs st)) m =
    (if m = mfk \<and> \<not> callerHoldsMutex cs mfk \<and> \<not> isPrePublicationConstructorCall (prog_of (fst st)) cs
     then insert (Caller cs) (requirers (fst st) m) else requirers (fst st) m)"
  by (cases st) (auto simp: reqSite_def Let_def requirers_def)

lemma snd_reqSite:
  "snd (reqSite callee mfk cs st) \<longleftrightarrow> snd st \<or> (\<not> callerHoldsMutex cs mfk \<and>
    \<not> isPrePublicationConstructorCall (prog_of (fst st)) cs \<and> Caller cs \<notin> requirers (fst st) mfk)"
  by (cases st) (auto simp: reqSite_def Let_def requirers_def)

lemma req_ok_reqSite:
  assumes ok: "req_ok ctx0 st" and cs: "cs \<in> set (callSites ctx0)" "Callee cs \<in> requirers (fst st) mfk"
  shows "req_ok ctx0 (reqSite (Callee cs) mfk cs st)"
proof -
  have same: "prog_of (fst st) = prog_of ctx0"
    using ok facts_only_same(1) by (auto simp: req_ok_def)
  have edge: "(Callee cs, Caller cs) \<in> req_rel ctx0 mfk"
    if "\<not> callerHoldsMutex cs mfk" "\<not> isPrePublicationConstructorCall (prog_of ctx0) cs"
    using that cs(1) by (auto simp: req_rel_def)
  have "Callee cs \<in> (req_rel ctx0 mfk)\<^sup>* `` requirers ctx0 mfk"
    using ok cs(2) by (auto simp: req_ok_def)
  with edge have "Caller cs \<in> (req_rel ctx0 mfk)\<^sup>* `` requirers ctx0 mfk"
    if "\<not> callerHoldsMutex cs mfk" "\<not> isPrePublicationConstructorCall (prog_of ctx0) cs"
    using that by (meson Image_iff rtrancl.rtrancl_into_rtrancl)
  then show ?thesis
    using ok facts_only_trans [OF _ reqSite_facts_only]
    unfolding req_ok_def requirers_reqSite snd_reqSite same by (auto simp: insert_absorb)
qed

text \<open>Every part of a pass only adds requirements.\<close>

definition req_grows :: "passContext \<times> bool \<Rightarrow> passContext \<times> bool \<Rightarrow> bool" where
  "req_grows st st' \<longleftrightarrow> facts_only (fst st) (fst st') \<and>
    (\<forall>m. requirers (fst st) m \<subseteq> requirers (fst st') m)"

lemma req_grows_refl [simp]: "req_grows st st"
  by (simp add: req_grows_def)

lemma req_grows_trans: "req_grows a b \<Longrightarrow> req_grows b c \<Longrightarrow> req_grows a c"
  by (meson facts_only_trans order_trans req_grows_def)

lemma req_grows_fold: "(\<And>x st. req_grows st (f x st)) \<Longrightarrow> req_grows st (fold f xs st)"
proof (induction xs arbitrary: st)
  case (Cons x xs)
  then have "req_grows st (f x st)" "req_grows (f x st) (fold f xs (f x st))" by blast+
  then show ?case by (simp add: req_grows_trans)
qed simp

lemma req_grows_pass: "req_grows st st' \<Longrightarrow> pass (fst st') = pass (fst st)"
  by (auto simp: req_grows_def dest: facts_only_same(1))

lemma req_grows_reqSite: "req_grows st (reqSite callee mfk cs st)"
  by (auto simp: req_grows_def reqSite_facts_only requirers_reqSite)

lemma req_grows_reqCallee: "req_grows st (reqCallee sites callee st)"
  unfolding reqCallee_sites
  by (auto intro!: req_grows_fold req_grows_reqSite split: option.splits)

lemma fold_reqSite_covers:
  assumes "cs \<in> set css" and "\<not> callerHoldsMutex cs mfk"
    and "\<not> isPrePublicationConstructorCall (prog_of (fst st)) cs"
  shows "Caller cs \<in> requirers (fst (fold (reqSite callee mfk) css st)) mfk"
proof -
  from assms(1) obtain as bs where css: "css = as @ cs # bs" by (meson split_list)
  let ?st = "fold (reqSite callee mfk) as st"
  have "req_grows st ?st" by (intro req_grows_fold req_grows_reqSite)
  then have "prog_of (fst ?st) = prog_of (fst st)" by (simp add: req_grows_pass)
  then have "Caller cs \<in> requirers (fst (reqSite callee mfk cs ?st)) mfk"
    using assms(2, 3) by (simp add: requirers_reqSite)
  moreover have "req_grows (reqSite callee mfk cs ?st) (fold (reqSite callee mfk) css st)"
    unfolding css by (simp add: req_grows_fold req_grows_reqSite)
  ultimately show ?thesis by (auto simp: req_grows_def)
qed

lemma reqCallee_covers:
  assumes "cs \<in> set sites" and "Callee cs \<in> requirers (fst st) mfk" and "\<not> callerHoldsMutex cs mfk"
    and "\<not> isPrePublicationConstructorCall (prog_of (fst st)) cs"
  shows "Caller cs \<in> requirers (fst (reqCallee sites (Callee cs) st)) mfk"
proof -
  from assms(2) obtain facts where facts: "gm_get (funcFacts (fst st)) (Callee cs) = Some facts"
    and "mfk \<in> set (Requires facts)"
    by (auto simp: requirers_def factsOf_def newFuncLockFacts_def split: option.splits)
  then obtain as bs where req: "Requires facts = as @ mfk # bs" by (meson split_list)
  let ?css = "filter (\<lambda>c. Callee c = Callee cs) sites"
  let ?f = "\<lambda>mfk. fold (reqSite (Callee cs) mfk) ?css"
  let ?st = "fold ?f as st"
  have grows: "req_grows st (fold ?f ms st)" for ms st
    by (intro req_grows_fold req_grows_reqSite)
  have "prog_of (fst ?st) = prog_of (fst st)"
    using grows [of st as] by (simp add: req_grows_pass)
  then have "Caller cs \<in> requirers (fst (?f mfk ?st)) mfk"
    using assms by (intro fold_reqSite_covers) auto
  moreover have "reqCallee sites (Callee cs) st = fold ?f bs (?f mfk ?st)"
    by (simp add: reqCallee_sites facts req)
  ultimately show ?thesis using grows [of "?f mfk ?st" bs] by (auto simp: req_grows_def)
qed

lemma req_ok_reqCallee:
  assumes "req_ok ctx0 st"
  shows "req_ok ctx0 (reqCallee (callSites ctx0) callee st)"
proof (cases "gm_get (funcFacts (fst st)) callee")
  case None
  with assms show ?thesis by (simp add: reqCallee_sites)
next
  case (Some facts)
  let ?css = "filter (\<lambda>cs. Callee cs = callee) (callSites ctx0)"
  have site: "req_ok ctx0 (fold (reqSite callee mfk) css st)"
    if "req_ok ctx0 st" "set css \<subseteq> set ?css" "callee \<in> requirers (fst st) mfk" for css mfk st
    using that
  proof (induction css arbitrary: st)
    case (Cons cs css)
    have "req_ok ctx0 (reqSite callee mfk cs st)"
      using Cons.prems req_ok_reqSite [of ctx0 st cs mfk] by auto
    moreover have "callee \<in> requirers (fst (reqSite callee mfk cs st)) mfk"
      using Cons.prems(3) req_grows_reqSite [of st callee mfk cs] unfolding req_grows_def by blast
    ultimately show ?case using Cons.IH [of "reqSite callee mfk cs st"] Cons.prems(2) by simp
  qed simp
  have "req_ok ctx0 (fold (\<lambda>mfk. fold (reqSite callee mfk) ?css) ms st)"
    if "req_ok ctx0 st" "\<forall>mfk \<in> set ms. callee \<in> requirers (fst st) mfk" for ms st
    using that
  proof (induction ms arbitrary: st)
    case (Cons mfk ms)
    have "req_grows st (fold (reqSite callee mfk) ?css st)"
      by (intro req_grows_fold req_grows_reqSite)
    then have "\<forall>k \<in> set ms. callee \<in> requirers (fst (fold (reqSite callee mfk) ?css st)) k"
      using Cons.prems(2) unfolding req_grows_def by auto
    then show ?case using Cons.IH site [of st ?css mfk] Cons.prems by simp
  qed simp
  then show ?thesis using assms Some
    by (auto simp: reqCallee_sites requirers_def factsOf_def)
qed

lemma req_ok_fold: "req_ok ctx0 st \<Longrightarrow> req_ok ctx0 (fold (reqCallee (callSites ctx0)) fns st)"
  by (induction fns arbitrary: st) (simp_all add: req_ok_reqCallee)

lemma req_ok_reqPass: "req_ok ctx (reqPass i ctx)"
  unfolding reqPass_def by (rule req_ok_fold) (auto simp: req_ok_def)

lemma reqPass_covers: "req_rel ctx m `` requirers ctx m \<subseteq> requirers (fst (reqPass i ctx)) m"
proof (rule subsetI, elim ImageE)
  fix caller callee assume "(callee, caller) \<in> req_rel ctx m" and callee: "callee \<in> requirers ctx m"
  then obtain cs where cs: "cs \<in> set (callSites ctx)" "\<not> callerHoldsMutex cs m"
    "\<not> isPrePublicationConstructorCall (prog_of ctx) cs" "callee = Callee cs" "caller = Caller cs"
    by (auto simp: req_rel_def)
  let ?f = "reqCallee (callSites ctx)"
  have "callee \<in> set (gm_keys (funcFacts ctx))"
    using callee by (auto simp: requirers_def factsOf_def newFuncLockFacts_def gm_keys_get split: option.splits)
  then have "callee \<in> set (visitOrder ctx i)" by (auto simp: visitOrder_def Let_def)
  then obtain as bs where vo: "visitOrder ctx i = as @ callee # bs" by (meson split_list)
  let ?st = "fold ?f as (ctx, False)"
  have grows: "req_grows st (fold ?f fns st)" for st fns
    by (intro req_grows_fold req_grows_reqCallee)
  have "prog_of (fst ?st) = prog_of ctx" and "callee \<in> requirers (fst ?st) m"
    using grows [of "(ctx, False)" as] callee req_grows_pass by (fastforce simp: req_grows_def)+
  then have "caller \<in> requirers (fst (?f callee ?st)) m"
    using cs reqCallee_covers [of cs "callSites ctx" ?st m] by simp
  then show "caller \<in> requirers (fst (reqPass i ctx)) m"
    using grows [of "?f callee ?st" bs] by (auto simp: reqPass_def vo req_grows_def)
qed

lemma req_rel_same: "facts_only ctx ctx' \<Longrightarrow> req_rel ctx' m = req_rel ctx m"
  by (simp add: req_rel_def facts_only_same)

interpretation req: closure_loop requirers req_rel "\<lambda>_. True" reqPass
proof (unfold_locales, goal_cases)
  case (2 s i s' ch m)
  then show ?case using req_ok_reqPass [of s i] by (simp add: req_ok_def req_rel_same)
next
  case (3 s i s' ch m)
  then show ?case using req_ok_reqPass [of s i] reqPass_covers [of s m i] by (simp add: req_ok_def)
next
  case (4 s i s' ch m)
  then show ?case using req_ok_reqPass [of s i] by (simp add: req_ok_def)
next
  case (5 s i s' m)
  then show ?case using req_ok_reqPass [of s i] by (simp add: req_ok_def)
qed simp

lemma finite_req_rel:
  shows "finite (Range (req_rel ctx m))"
    and "card (Range (req_rel ctx m)) \<le> card (Caller ` set (callSites ctx))"
proof -
  have sub: "Range (req_rel ctx m) \<subseteq> Caller ` set (callSites ctx)" by (auto simp: req_rel_def)
  then show "card (Range (req_rel ctx m)) \<le> card (Caller ` set (callSites ctx))"
    by (intro card_mono) simp_all
  from sub show "finite (Range (req_rel ctx m))" by (rule finite_subset) simp
qed

section \<open>Propagation of acquisitions\<close>

text \<open>A caller acquires whatever its callees acquire.\<close>

definition call_rel :: "passContext \<Rightarrow> (func \<times> func) set" where
  "call_rel ctx = {(Callee cs, Caller cs) |cs. cs \<in> set (callSites ctx)}"

definition acq_ok :: "passContext \<Rightarrow> passContext \<times> bool \<Rightarrow> bool" where
  "acq_ok ctx0 st \<longleftrightarrow> facts_only ctx0 (fst st) \<and>
    (\<forall>m. acquirers ctx0 m \<subseteq> acquirers (fst st) m \<and>
      acquirers (fst st) m \<subseteq> (call_rel ctx0)\<^sup>* `` acquirers ctx0 m) \<and>
    (\<not> snd st \<longrightarrow> (\<forall>m. acquirers (fst st) m = acquirers ctx0 m))"

lemma acqSite_facts_only: "facts_only (fst st) (fst (acqSite cs st))"
  by (cases st) (auto simp: acqSite_def Let_def split: option.splits)

lemma acquirers_acqSite:
  "acquirers (fst (acqSite cs st)) m =
    (if Callee cs \<in> acquirers (fst st) m then insert (Caller cs) (acquirers (fst st) m)
     else acquirers (fst st) m)"
  by (cases st) (auto simp: acqSite_def Let_def acquirers_def factsOf_def newFuncLockFacts_def
      split: option.splits)

lemma snd_acqSite:
  "snd (acqSite cs st) \<longleftrightarrow> snd st \<or>
    (\<exists>m. Callee cs \<in> acquirers (fst st) m \<and> Caller cs \<notin> acquirers (fst st) m)"
  by (cases st) (auto simp: acqSite_def Let_def acquirers_def factsOf_def newFuncLockFacts_def
      list_ex_iff split: option.splits)

lemma acq_ok_acqSite:
  assumes ok: "acq_ok ctx0 st" and cs: "cs \<in> set (callSites ctx0)"
  shows "acq_ok ctx0 (acqSite cs st)"
proof -
  have edge: "(Callee cs, Caller cs) \<in> call_rel ctx0" using cs by (auto simp: call_rel_def)
  have "Caller cs \<in> (call_rel ctx0)\<^sup>* `` acquirers ctx0 m" if "Callee cs \<in> acquirers (fst st) m" for m
  proof -
    have "Callee cs \<in> (call_rel ctx0)\<^sup>* `` acquirers ctx0 m" using ok that by (auto simp: acq_ok_def)
    with edge show ?thesis by (meson Image_iff rtrancl.rtrancl_into_rtrancl)
  qed
  then show ?thesis
    using ok facts_only_trans [OF _ acqSite_facts_only]
    unfolding acq_ok_def acquirers_acqSite snd_acqSite by (auto simp: insert_absorb)
qed

lemma acq_ok_acqPass: "acq_ok ctx (acqPass i ctx)"
proof -
  have "acq_ok ctx (fold acqSite css st)" if "acq_ok ctx st" "set css \<subseteq> set (callSites ctx)" for css st
    using that by (induction css arbitrary: st) (simp_all add: acq_ok_acqSite)
  moreover have "acq_ok ctx (ctx, False)" by (auto simp: acq_ok_def)
  ultimately show ?thesis unfolding acqPass_def by blast
qed

lemma acq_fold_mono: "acquirers (fst st) m \<subseteq> acquirers (fst (fold acqSite css st)) m"
proof (induction css arbitrary: st)
  case (Cons cs css)
  have "acquirers (fst st) m \<subseteq> acquirers (fst (acqSite cs st)) m" by (auto simp: acquirers_acqSite)
  with Cons.IH [of "acqSite cs st"] show ?case by simp
qed simp

lemma acqPass_covers: "call_rel ctx `` acquirers ctx m \<subseteq> acquirers (fst (acqPass i ctx)) m"
proof (rule subsetI, elim ImageE)
  fix caller callee assume "(callee, caller) \<in> call_rel ctx" and callee: "callee \<in> acquirers ctx m"
  then obtain cs where cs: "cs \<in> set (callSites ctx)" "callee = Callee cs" "caller = Caller cs"
    by (auto simp: call_rel_def)
  then obtain as bs where css: "callSites ctx = as @ cs # bs" by (meson split_list)
  let ?st = "fold acqSite as (ctx, False)"
  have "callee \<in> acquirers (fst ?st) m" using acq_fold_mono [of "(ctx, False)" m as] callee by auto
  then have "caller \<in> acquirers (fst (acqSite cs ?st)) m" using cs by (simp add: acquirers_acqSite)
  then show "caller \<in> acquirers (fst (acqPass i ctx)) m"
    using acq_fold_mono [of "acqSite cs ?st" m bs] by (auto simp: acqPass_def css)
qed

lemma call_rel_same: "facts_only ctx ctx' \<Longrightarrow> call_rel ctx' = call_rel ctx"
  by (simp add: call_rel_def facts_only_same)

interpretation acq: closure_loop acquirers "\<lambda>ctx m. call_rel ctx" "\<lambda>_. True" acqPass
proof (unfold_locales, goal_cases)
  case (2 s i s' ch m)
  then show ?case using acq_ok_acqPass [of s i] by (simp add: acq_ok_def call_rel_same)
next
  case (3 s i s' ch m)
  then show ?case using acq_ok_acqPass [of s i] acqPass_covers [of s m i] by (simp add: acq_ok_def)
next
  case (4 s i s' ch m)
  then show ?case using acq_ok_acqPass [of s i] by (simp add: acq_ok_def)
next
  case (5 s i s' m)
  then show ?case using acq_ok_acqPass [of s i] by (simp add: acq_ok_def)
qed simp

section \<open>The whole propagation\<close>

text \<open>The two loops do not disturb each other, and leave the rest of the context alone.\<close>

definition same_acquires :: "passContext \<Rightarrow> passContext \<Rightarrow> bool" where
  "same_acquires ctx ctx' \<longleftrightarrow> facts_only ctx ctx' \<and> (\<forall>fn. Acquires (factsOf ctx' fn) = Acquires (factsOf ctx fn) \<and>
    AcquiresTransitive (factsOf ctx' fn) = AcquiresTransitive (factsOf ctx fn))"

lemma same_acquires_reqSite:
  assumes "same_acquires ctx (fst st)"
  shows "same_acquires ctx (fst (reqSite callee mfk cs st))"
proof -
  have "Acquires (factsOf (fst (reqSite callee mfk cs st)) fn) = Acquires (factsOf (fst st) fn) \<and>
      AcquiresTransitive (factsOf (fst (reqSite callee mfk cs st)) fn) = AcquiresTransitive (factsOf (fst st) fn)"
    for fn by (cases st) (simp add: reqSite_def Let_def)
  with assms reqSite_facts_only [of st callee mfk cs] show ?thesis
    by (auto simp: same_acquires_def intro: facts_only_trans)
qed

lemma same_acquires_reqPass: "same_acquires ctx (fst (reqPass i ctx))"
proof -
  have "same_acquires ctx (fst (reqCallee sites callee st))" if "same_acquires ctx (fst st)" for sites callee st
    unfolding reqCallee_sites using that
    by (auto intro!: fold_invariant [where P = "\<lambda>st. same_acquires ctx (fst st)" and Q = "\<lambda>_. True"]
        same_acquires_reqSite split: option.splits)
  then show ?thesis unfolding reqPass_def
    by (intro fold_invariant [where P = "\<lambda>st. same_acquires ctx (fst st)" and Q = "\<lambda>_. True"])
      (auto simp: same_acquires_def)
qed

lemma same_acquires_loop: "same_acquires ctx (iterate reqPass n i ctx)"
proof (rule iterate_invariant)
  fix i s s' ch assume "same_acquires ctx s" and "reqPass i s = (s', ch)"
  then show "same_acquires ctx s'"
    using same_acquires_reqPass [of s i] by (auto simp: same_acquires_def intro: facts_only_trans)
qed (simp add: same_acquires_def)

definition same_requires :: "passContext \<Rightarrow> passContext \<Rightarrow> bool" where
  "same_requires ctx ctx' \<longleftrightarrow> facts_only ctx ctx' \<and>
    (\<forall>fn. Requires (factsOf ctx' fn) = Requires (factsOf ctx fn))"

lemma same_requires_acqSite: "same_requires ctx (fst st) \<Longrightarrow> same_requires ctx (fst (acqSite cs st))"
  using acqSite_facts_only [of st cs]
  by (cases st) (auto simp: same_requires_def acqSite_def Let_def intro: facts_only_trans split: option.splits)

lemma same_requires_loop: "same_requires ctx (iterate acqPass n i ctx)"
proof (rule iterate_invariant)
  fix i s s' ch assume s: "same_requires ctx s" and pass: "acqPass i s = (s', ch)"
  have "same_requires ctx (fst (acqPass i s))"
    unfolding acqPass_def using s
    by (intro fold_invariant [where P = "\<lambda>st. same_requires ctx (fst st)" and Q = "\<lambda>_. True"])
      (auto intro: same_requires_acqSite)
  with pass show "same_requires ctx s'" by simp
qed (simp add: same_requires_def)

lemma factsOf_seedAcquires:
  "factsOf (seedAcquires ctx) fn = (factsOf ctx fn)\<lparr>AcquiresTransitive :=
    fold (\<lambda>mfk s. set_add s mfk) (Acquires (factsOf ctx fn)) (AcquiresTransitive (factsOf ctx fn))\<rparr>"
  by (auto simp: seedAcquires_def factsOf_def gm_get_def map_of_map newFuncLockFacts_def
      split: option.splits)

lemma facts_only_seedAcquires: "facts_only ctx (seedAcquires ctx)"
  by (auto simp: seedAcquires_def facts_only_def)

lemma facts_only_propagate: "facts_only ctx (propagateRequirements ctx)"
  using same_acquires_loop [of ctx maxIterations 0] facts_only_seedAcquires
    same_requires_loop [of "seedAcquires (iterate reqPass maxIterations 0 ctx)" maxIterations 0]
  unfolding propagateRequirements_def same_acquires_def same_requires_def
  by (blast intro: facts_only_trans)

lemma requirers_propagate: "requirers (propagateRequirements ctx) m = requirers (iterate reqPass maxIterations 0 ctx) m"
  using same_requires_loop [of "seedAcquires (iterate reqPass maxIterations 0 ctx)" maxIterations 0]
  by (simp add: propagateRequirements_def requirers_def same_requires_def factsOf_seedAcquires)

text \<open>The functions that acquire a mutex themselves, or are known to from an imported fact.\<close>

definition direct_acquirers :: "passContext \<Rightarrow> mutexFieldKey \<Rightarrow> func set" where
  "direct_acquirers ctx m =
    {fn. m \<in> set (Acquires (factsOf ctx fn)) \<or> m \<in> set (AcquiresTransitive (factsOf ctx fn))}"

lemma acquirers_seeded:
  "acquirers (seedAcquires (iterate reqPass n i ctx)) m = direct_acquirers ctx m"
  using same_acquires_loop [of ctx n i]
  by (simp add: acquirers_def direct_acquirers_def factsOf_seedAcquires same_acquires_def Un_def)

lemma call_rel_seeded:
  "call_rel (seedAcquires (iterate reqPass n i ctx)) = call_rel ctx"
proof -
  have "facts_only ctx (seedAcquires (iterate reqPass n i ctx))"
    using same_acquires_loop [of ctx n i] facts_only_seedAcquires
    by (auto simp: same_acquires_def intro: facts_only_trans)
  then show ?thesis by (rule call_rel_same)
qed

lemma finite_call_rel:
  "finite (Range (call_rel ctx))" "Range (call_rel ctx) = Caller ` set (callSites ctx)"
proof -
  show *: "Range (call_rel ctx) = Caller ` set (callSites ctx)" by (force simp: call_rel_def)
  show "finite (Range (call_rel ctx))" unfolding * by simp
qed

text \<open>What the two loops compute, when the package has at most \<open>maxIterations\<close> functions that call.\<close>

lemma propagate_requires:
  assumes "card (Caller ` set (callSites ctx)) \<le> maxIterations"
  shows "requirers (propagateRequirements ctx) m = (req_rel ctx m)\<^sup>* `` requirers ctx m"
  unfolding requirers_propagate
  using order_trans [OF finite_req_rel(2) assms] by (intro req.loop_exact) (simp_all add: finite_req_rel(1))

lemma propagate_requires_sound:
  "requirers (propagateRequirements ctx) m \<subseteq> (req_rel ctx m)\<^sup>* `` requirers ctx m"
  unfolding requirers_propagate by (rule req.loop_sound) simp

lemma propagate_acquires:
  assumes "card (Caller ` set (callSites ctx)) \<le> maxIterations"
  shows "acquirers (propagateRequirements ctx) m = (call_rel ctx)\<^sup>* `` direct_acquirers ctx m"
proof -
  let ?s = "seedAcquires (iterate reqPass maxIterations 0 ctx)"
  have "acquirers (iterate acqPass maxIterations 0 ?s) m = (call_rel ?s)\<^sup>* `` acquirers ?s m"
    using assms by (intro acq.loop_exact) (simp_all add: call_rel_seeded finite_call_rel)
  then show ?thesis by (simp add: propagateRequirements_def acquirers_seeded call_rel_seeded)
qed

section \<open>Lock-order edges across calls\<close>

lemma addEdges_rel:
  assumes "graph_ok (orderGraph ctx)"
  shows "graph_ok (orderGraph (addEdges ctx es))"
    and "graph_rel (orderGraph (addEdges ctx es)) =
      (\<lambda>e. (edgeFrom e, edgeTo e)) ` set es \<union> graph_rel (orderGraph ctx)"
proof -
  have "graph_ok (fold (\<lambda>e g. addEdge g e) es g) \<and>
      graph_rel (fold (\<lambda>e g. addEdge g e) es g) = (\<lambda>e. (edgeFrom e, edgeTo e)) ` set es \<union> graph_rel g"
    if "graph_ok g" for g
    using that by (induction es arbitrary: g) (auto simp: graph_ok_addEdge graph_rel_addEdge)
  from this [OF assms] show "graph_ok (orderGraph (addEdges ctx es))"
    "graph_rel (orderGraph (addEdges ctx es)) =
      (\<lambda>e. (edgeFrom e, edgeTo e)) ` set es \<union> graph_rel (orderGraph ctx)"
    by (simp_all add: addEdges_def)
qed

definition held_at :: "callSiteRecord \<Rightarrow> mutexFieldKey \<Rightarrow> bool" where
  "held_at cs k \<longleftrightarrow> mfk_FieldIndex k \<in> hmr_FieldIndex ` set (gm_slice (HeldByStructType cs) (mfk_StructType k))"

lemma callerHoldsMutex_held_at: "callerHoldsMutex cs k = held_at cs k"
  by (auto simp: callerHoldsMutex_def held_at_def gm_slice_def list_ex_iff image_iff split: option.splits)

lemma set_heldKeys: "k \<in> set (heldKeys ctx i cs) \<longleftrightarrow> held_at cs k"
proof -
  have "gm_slice (HeldByStructType cs) n \<noteq> [] \<Longrightarrow> n \<in> set (gm_keys (HeldByStructType cs))" for n
    by (auto simp: gm_keys_get gm_slice_def split: option.splits)
  moreover have "k \<in> set (heldKeys ctx i cs) \<longleftrightarrow> (\<exists>n hr. n \<in> set (gm_keys (HeldByStructType cs)) \<and>
      hr \<in> set (gm_slice (HeldByStructType cs) n) \<and>
      k = \<lparr>mfk_StructType = n, mfk_FieldIndex = hmr_FieldIndex hr\<rparr>)"
    by (auto simp: heldKeys_def)
  ultimately show ?thesis by (cases k) (force simp: held_at_def)
qed

lemma siteEdges_rel:
  "(\<lambda>e. (edgeFrom e, edgeTo e)) ` set (siteEdges ctx i cs) =
    {(h, a). held_at cs h \<and> Callee cs \<in> acquirers ctx a \<and> h \<noteq> a}"
proof (cases "gm_get (funcFacts ctx) (Callee cs)")
  case None
  then show ?thesis by (auto simp: siteEdges_def acquirers_def factsOf_def newFuncLockFacts_def)
next
  case (Some facts)
  have h: "(\<exists>j. (j, h) \<in> set (enumerate 0 (heldKeys ctx i cs))) \<longleftrightarrow> held_at cs h" for h
    unfolding set_heldKeys [of h ctx i cs, symmetric] snd_set_enumerate [of 0 "heldKeys ctx i cs", symmetric]
    by force
  have "(h, a) \<in> (\<lambda>e. (edgeFrom e, edgeTo e)) ` set (siteEdges ctx i cs) \<longleftrightarrow>
      (\<exists>j. (j, h) \<in> set (enumerate 0 (heldKeys ctx i cs))) \<and> a \<in> set (AcquiresTransitive facts) \<and> h \<noteq> a" for h a
    by (force simp: siteEdges_def Some image_iff)
  then show ?thesis unfolding h using Some by (auto simp: acquirers_def factsOf_def)
qed

lemma collect_edges:
  assumes "graph_ok (orderGraph ctx)"
  shows "graph_ok (orderGraph (collectInterproceduralLockOrderEdges ctx))"
    and "graph_rel (orderGraph (collectInterproceduralLockOrderEdges ctx)) = graph_rel (orderGraph ctx) \<union>
      {(h, a). \<exists>cs \<in> set (callSites ctx). held_at cs h \<and> Callee cs \<in> acquirers ctx a \<and> h \<noteq> a}"
proof -
  let ?S = "\<lambda>cs. {(h, a). held_at cs h \<and> Callee cs \<in> acquirers ctx a \<and> h \<noteq> a}"
  have "(\<lambda>e. (edgeFrom e, edgeTo e)) `
        set (concat (map (\<lambda>(i, cs). siteEdges ctx i cs) (enumerate 0 (callSites ctx)))) =
      (\<Union>x \<in> set (enumerate 0 (callSites ctx)). ?S (snd x))"
    by (simp only: set_concat set_map image_image image_UN case_prod_beta siteEdges_rel)
  also have "\<dots> = (\<Union>cs \<in> set (callSites ctx). ?S cs)"
    by (subst snd_set_enumerate [of 0 "callSites ctx", symmetric]) simp
  also have "\<dots> = {(h, a). \<exists>cs \<in> set (callSites ctx). held_at cs h \<and> Callee cs \<in> acquirers ctx a \<and> h \<noteq> a}"
    by auto
  finally show "graph_rel (orderGraph (collectInterproceduralLockOrderEdges ctx)) = graph_rel (orderGraph ctx) \<union>
      {(h, a). \<exists>cs \<in> set (callSites ctx). held_at cs h \<and> Callee cs \<in> acquirers ctx a \<and> h \<noteq> a}"
    unfolding collectInterproceduralLockOrderEdges_def addEdges_rel(2) [OF assms] by auto
  show "graph_ok (orderGraph (collectInterproceduralLockOrderEdges ctx))"
    unfolding collectInterproceduralLockOrderEdges_def by (rule addEdges_rel(1) [OF assms])
qed

end
