(* ===== verification/Concurrency.thy ===== *)
theory Concurrency
  imports Interprocedural
begin

text \<open>
  \<open>pkg/analyzer/concurrency.go\<close>: the functions that can run concurrently, as what is reachable in the
  call graph from \<open>go\<close> statements, HTTP handlers and annotated functions. \<open>bfs\<close> is the queue loop of
  \<open>computeConcurrentContext\<close>, with its \<open>head\<close> index; \<open>reachable\<close> and the entrypoints are sets kept as
  lists. The queue starts in the order in which the runtime ranges over the entrypoints.
\<close>

section \<open>Entrypoints\<close>

definition is_http_type :: "prog \<Rightarrow> gotype \<Rightarrow> string \<Rightarrow> bool" where
  "is_http_type P t name =
    (case as_named t of
       None \<Rightarrow> False
     | Some n \<Rightarrow> (case obj_pkg P n of
         None \<Rightarrow> False
       | Some p \<Rightarrow> pkgPath (pkg_at P p) = ''net/http'' \<and> objName (named_at P n) = name))"

definition isHTTPResponseWriter :: "prog \<Rightarrow> gotype \<Rightarrow> bool" where
  "isHTTPResponseWriter P t = is_http_type P t ''ResponseWriter''"

definition isHTTPRequestPtr :: "prog \<Rightarrow> gotype \<Rightarrow> bool" where
  "isHTTPRequestPtr P t =
    (case as_pointer t of None \<Rightarrow> False | Some elem \<Rightarrow> is_http_type P elem ''Request'')"

definition isHTTPHandleFunc :: "prog \<Rightarrow> func \<Rightarrow> bool" where
  "isHTTPHandleFunc P fn =
    (if fnName (func_at P fn) \<noteq> ''HandleFunc'' then False
     else case fnPackage (func_at P fn) of
         None \<Rightarrow> False
       | Some p \<Rightarrow> pkgPath (pkg_at P p) = ''net/http'')"

definition isServeHTTPMethod :: "prog \<Rightarrow> func \<Rightarrow> bool" where
  "isServeHTTPMethod P fn =
    (if fnName (func_at P fn) \<noteq> ''ServeHTTP'' then False
     else case sigParams (func_at P fn) of
         [w, r] \<Rightarrow> isHTTPResponseWriter P w \<and> isHTTPRequestPtr P r
       | _ \<Rightarrow> False)"

definition closure_func :: "prog \<Rightarrow> val \<Rightarrow> func option" where
  "closure_func P v =
    (case kind_of P v of
       MakeClosure fnVal \<Rightarrow> (case kind_of P fnVal of Function fn \<Rightarrow> Some fn | _ \<Rightarrow> None)
     | Function fn \<Rightarrow> Some fn
     | _ \<Rightarrow> None)"

definition extractGoTarget :: "prog \<Rightarrow> call_common \<Rightarrow> func option" where
  "extractGoTarget P common =
    (case StaticCallee common of
       Some callee \<Rightarrow> Some callee
     | None \<Rightarrow> closure_func P (ccValue common))"

definition extractHandlerFuncTarget :: "prog \<Rightarrow> call_common \<Rightarrow> func option" where
  "extractHandlerFuncTarget P common =
    (case StaticCallee common of
       None \<Rightarrow> None
     | Some callee \<Rightarrow>
         if \<not> isHTTPHandleFunc P callee then None
         else if Args common = [] then None
         else closure_func P (last (Args common)))"

fun instr_entrypoint :: "prog \<Rightarrow> ssa_instr \<Rightarrow> func option" where
  "instr_entrypoint P (IGo p common) = extractGoTarget P common"
| "instr_entrypoint P (ICall p common) = extractHandlerFuncTarget P common"
| "instr_entrypoint P i = None"

definition add_target :: "prog \<Rightarrow> ssa_instr \<Rightarrow> func list \<Rightarrow> func list" where
  "add_target P i entrypoints =
    (case instr_entrypoint P i of None \<Rightarrow> entrypoints | Some target \<Rightarrow> set_add entrypoints target)"

definition detectConcurrentEntrypoints :: "passContext \<Rightarrow> func list" where
  "detectConcurrentEntrypoints ctx =
    (let P = prog_of ctx;
         scanned = fold (\<lambda>fn entrypoints.
             fold (\<lambda>block. fold (add_target P) (Instrs block)) (Blocks (func_at P fn))
               (if isServeHTTPMethod P fn then set_add entrypoints fn else entrypoints))
           (srcFuncs ctx) []
     in case annos ctx of
          None \<Rightarrow> scanned
        | Some a \<Rightarrow> fold (\<lambda>fn s. set_add s fn) (concurrent a) scanned)"

section \<open>Reachability\<close>

definition buildForwardCallGraph :: "passContext \<Rightarrow> (func, func list) gomap" where
  "buildForwardCallGraph ctx = fold (\<lambda>cs m. gm_append m (Caller cs) (Callee cs)) (callSites ctx) []"

definition mark :: "func \<Rightarrow> func list \<times> func list \<Rightarrow> func list \<times> func list" where
  "mark callee st =
    (case st of (reachable, queue) \<Rightarrow>
       if callee \<in> set reachable then (reachable, queue)
       else (set_add reachable callee, queue @ [callee]))"

definition unreached :: "(func, func list) gomap \<Rightarrow> func list \<Rightarrow> nat" where
  "unreached forward reachable = card (\<Union> (set ` snd ` set forward) - set reachable)"

lemma mark_measure:
  assumes "callee \<in> U" and "finite U" and "mark callee (r, q) = (r', q')"
  shows "2 * card (U - set r') + length q' \<le> 2 * card (U - set r) + length q"
proof (cases "callee \<in> set r")
  case False
  then have "U - set r = insert callee (U - set r')" "callee \<notin> U - set r'"
    using assms by (auto simp: mark_def)
  then have "card (U - set r) = Suc (card (U - set r'))" using assms(2) by simp
  with False assms(3) show ?thesis by (auto simp: mark_def)
qed (use assms(3) in \<open>simp add: mark_def\<close>)

lemma mark_fold_measure:
  assumes "set callees \<subseteq> U" and "finite U"
  shows "fold mark callees (r, q) = (r', q') \<Longrightarrow>
    2 * card (U - set r') + length q' \<le> 2 * card (U - set r) + length q"
  using assms(1)
proof (induction callees arbitrary: r q)
  case (Cons c cs)
  obtain r1 q1 where m: "mark c (r, q) = (r1, q1)" by fastforce
  with Cons.prems mark_measure [OF _ assms(2) m] Cons.IH [of r1 q1] show ?case by simp
qed simp

lemma slice_in_values: "set (gm_slice m k) \<subseteq> \<Union> (set ` snd ` set m)"
proof (cases "gm_get m k")
  case (Some vs)
  then have "(k, vs) \<in> set m" by (simp add: gm_get_def map_of_SomeD)
  with Some show ?thesis by (force simp: gm_slice_def)
qed (simp add: gm_slice_def)

function bfs :: "(func, func list) gomap \<Rightarrow> func list \<Rightarrow> func list \<Rightarrow> nat \<Rightarrow> func list" where
  "bfs forward reachable queue head =
    (if head < length queue
     then case fold mark (gm_slice forward (queue ! head)) (reachable, queue) of
       (reachable', queue') \<Rightarrow> bfs forward reachable' queue' (Suc head)
     else reachable)"
  by pat_completeness auto
termination
proof (relation "measure (\<lambda>(forward, reachable, queue, head).
    2 * unreached forward reachable + length queue - head)", goal_cases)
  case (2 forward reachable queue head reachable' queue')
  then have "2 * unreached forward reachable' + length queue' \<le>
      2 * unreached forward reachable + length queue"
    unfolding unreached_def
    by (intro mark_fold_measure [OF slice_in_values]) auto
  with 2 show ?case by simp
qed simp

declare bfs.simps [simp del]

definition computeConcurrentContext :: "passContext \<Rightarrow> passContext" where
  "computeConcurrentContext ctx =
    (let entrypoints = detectConcurrentEntrypoints ctx in
     if length entrypoints = 0 then ctx\<lparr>concurrentFuncs := None\<rparr>
     else let queue = shuffle (rangeOrder (pass ctx) ''computeConcurrentContext'' 0) entrypoints
          in ctx\<lparr>concurrentFuncs := Some (bfs (buildForwardCallGraph ctx) queue queue 0)\<rparr>)"

definition isConcurrent :: "passContext \<Rightarrow> func \<Rightarrow> bool" where
  "isConcurrent ctx fn = (case concurrentFuncs ctx of None \<Rightarrow> True | Some fs \<Rightarrow> fn \<in> set fs)"

section \<open>The search is exact\<close>

lemma mark_fold:
  "fold mark callees (r, q) = (r', q') \<Longrightarrow> set r' = set r \<union> set callees \<and>
    (\<exists>new. q' = q @ new \<and> set r' = set r \<union> set new)"
proof (induction callees arbitrary: r q)
  case (Cons c cs)
  show ?case
  proof (cases "c \<in> set r")
    case True
    with Cons.prems have "fold mark cs (r, q) = (r', q')" by (simp add: mark_def [of c])
    from Cons.IH [OF this] True show ?thesis by auto
  next
    case False
    with Cons.prems have "fold mark cs (set_add r c, q @ [c]) = (r', q')" by (simp add: mark_def [of c])
    from Cons.IH [OF this] obtain new where "set r' = insert c (set r) \<union> set cs" "q' = q @ c # new"
      "set r' = insert c (set r) \<union> set new" by auto
    then show ?thesis by (intro conjI exI [of _ "c # new"]) auto
  qed
qed simp

text \<open>The invariant of the queue: it holds what is reachable so far, and the nodes before \<open>head\<close> are
  done.\<close>

lemma bfs_exact:
  assumes "set queue = set reachable" and "head \<le> length queue"
    and "\<forall>i < head. set (gm_slice forward (queue ! i)) \<subseteq> set reachable"
  shows "set (bfs forward reachable queue head) =
    {(a, b). b \<in> set (gm_slice forward a)}\<^sup>* `` set reachable"
  using assms
proof (induction forward reachable queue head rule: bfs.induct)
  case (1 forward reachable queue head)
  let ?E = "{(a, b). b \<in> set (gm_slice forward a)}"
  show ?case
  proof (cases "head < length queue")
    case False
    have "?E `` set reachable \<subseteq> set reachable"
    proof (rule subsetI, elim ImageE)
      fix a b assume "(a, b) \<in> ?E" and "a \<in> set reachable"
      then obtain i where "i < length queue" "a = queue ! i"
        unfolding "1.prems"(1) [symmetric] in_set_conv_nth by blast
      then show "b \<in> set reachable" using "1.prems"(2, 3) False \<open>(a, b) \<in> ?E\<close> by auto
    qed
    then have "?E\<^sup>* `` set reachable = set reachable" by (rule Image_closed_trancl)
    with False show ?thesis by (subst bfs.simps) simp
  next
    case True
    obtain r' q' where m: "fold mark (gm_slice forward (queue ! head)) (reachable, queue) = (r', q')"
      by fastforce
    from mark_fold [OF m] obtain new where q': "q' = queue @ new" and r': "set r' = set reachable \<union> set new"
      and succ: "set r' = set reachable \<union> set (gm_slice forward (queue ! head))" by auto
    have "queue ! head \<in> set reachable" using True "1.prems"(1) nth_mem by blast
    then have "set (gm_slice forward (queue ! head)) \<subseteq> ?E\<^sup>* `` set reachable" by auto
    then have "set r' \<subseteq> ?E\<^sup>* `` set reachable" using succ by auto
    then have "?E\<^sup>* `` set r' \<subseteq> ?E\<^sup>* `` set reachable"
      by (rule rtrancl_Image_subset)
    moreover have "?E\<^sup>* `` set reachable \<subseteq> ?E\<^sup>* `` set r'" using succ by (intro Image_mono) auto
    moreover have "set (bfs forward r' q' (Suc head)) = ?E\<^sup>* `` set r'"
    proof (rule "1.IH" [OF True m [symmetric]])
      show "\<forall>i < Suc head. set (gm_slice forward (q' ! i)) \<subseteq> set r'"
        using "1.prems"(3) True succ by (auto simp: q' nth_append less_Suc_eq)
    qed (use True "1.prems"(1) q' r' in auto)
    ultimately show ?thesis using True m by (subst bfs.simps) simp
  qed
qed

definition calls :: "passContext \<Rightarrow> (func \<times> func) set" where
  "calls ctx = {(Caller cs, Callee cs) |cs. cs \<in> set (callSites ctx)}"

lemma buildForwardCallGraph_edges: "{(a, b). b \<in> set (gm_slice (buildForwardCallGraph ctx) a)} = calls ctx"
proof -
  have "b \<in> set (gm_slice (fold (\<lambda>cs m. gm_append m (Caller cs) (Callee cs)) css m) a) \<longleftrightarrow>
      b \<in> set (gm_slice m a) \<or> (\<exists>cs \<in> set css. a = Caller cs \<and> b = Callee cs)"
    for css :: "callSiteRecord list" and m a b
    by (induction css arbitrary: m) auto
  then show ?thesis by (auto simp: buildForwardCallGraph_def calls_def)
qed

text \<open>A function is treated as concurrent when it is reachable from an entrypoint, and every function
  is when there is none.\<close>

lemma isConcurrent_spec:
  "isConcurrent (computeConcurrentContext ctx) fn \<longleftrightarrow>
    detectConcurrentEntrypoints ctx = [] \<or>
    fn \<in> (calls ctx)\<^sup>* `` set (detectConcurrentEntrypoints ctx)"
  by (auto simp: isConcurrent_def computeConcurrentContext_def Let_def bfs_exact
      buildForwardCallGraph_edges)

section \<open>What counts as an entrypoint\<close>

lemma set_add_target: "set (add_target P i s) = set s \<union> {t. instr_entrypoint P i = Some t}"
  by (auto simp: add_target_def split: option.splits)

lemma set_fold_targets:
  "set (fold (add_target P) is s) = set s \<union> {t. \<exists>i \<in> set is. instr_entrypoint P i = Some t}"
  by (induction "is" arbitrary: s) (auto simp: set_add_target)

lemma set_fold_blocks:
  "set (fold (\<lambda>block. fold (add_target P) (Instrs block)) bs s) =
    set s \<union> {t. \<exists>b \<in> set bs. \<exists>i \<in> set (Instrs b). instr_entrypoint P i = Some t}"
  by (induction bs arbitrary: s) (auto simp: set_fold_targets)

lemma detectConcurrentEntrypoints_spec:
  "fn \<in> set (detectConcurrentEntrypoints ctx) \<longleftrightarrow>
    (fn \<in> set (srcFuncs ctx) \<and> isServeHTTPMethod (prog_of ctx) fn) \<or>
    (\<exists>g \<in> set (srcFuncs ctx). \<exists>b \<in> set (Blocks (func_at (prog_of ctx) g)). \<exists>i \<in> set (Instrs b).
      instr_entrypoint (prog_of ctx) i = Some fn) \<or>
    (\<exists>a. annos ctx = Some a \<and> fn \<in> set (concurrent a))"
proof -
  let ?P = "prog_of ctx"
  let ?f = "\<lambda>fn entrypoints. fold (\<lambda>block. fold (add_target ?P) (Instrs block)) (Blocks (func_at ?P fn))
      (if isServeHTTPMethod ?P fn then set_add entrypoints fn else entrypoints)"
  have "x \<in> set (fold ?f fns s) \<longleftrightarrow> x \<in> set s \<or> (x \<in> set fns \<and> isServeHTTPMethod ?P x) \<or>
      (\<exists>g \<in> set fns. \<exists>b \<in> set (Blocks (func_at ?P g)). \<exists>i \<in> set (Instrs b). instr_entrypoint ?P i = Some x)"
    for fns s x
    by (induction fns arbitrary: s) (auto simp: set_fold_blocks)
  then show ?thesis
    by (auto simp: detectConcurrentEntrypoints_def Let_def split: option.splits)
qed

lemma computeConcurrentContext_frame [simp]:
  "pass (computeConcurrentContext ctx) = pass ctx"
  "callSites (computeConcurrentContext ctx) = callSites ctx"
  "funcFacts (computeConcurrentContext ctx) = funcFacts ctx"
  "diagnostics (computeConcurrentContext ctx) = diagnostics ctx"
  "annos (computeConcurrentContext ctx) = annos ctx"
  "observations (computeConcurrentContext ctx) = observations ctx"
  "guards (computeConcurrentContext ctx) = guards ctx"
  by (simp_all add: computeConcurrentContext_def Let_def)

end
