(* ===== verification/Facts.thy ===== *)
theory Facts
  imports Concurrency
begin

text \<open>
  \<open>pkg/analyzer/facts.go\<close>: the facts that one package exports about its types and functions and that
  the packages importing it read. \<open>ExportObjectFact\<close> and \<open>ImportObjectFact\<close> of the analysis framework
  attach a fact to an object: the exported facts are maps from the identity of the object, and the
  imported ones are fields of \<open>apass\<close>. The order of \<open>MutexRef\<close> is the comparison that
  \<open>mutexFieldKeySetToRefs\<close> sorts by. It is total, so the sorted slice does not depend on the order of
  the map; the order of a \<open>range\<close> matters only where two instances of a generic type or function
  export a fact for the same object.

  \<open>Obj().Pkg()\<close> is nil only for the predeclared types, none of which is a struct, so that
  \<open>mutexFieldKeyToRef\<close> never meets it.
\<close>

section \<open>References to mutexes\<close>

text \<open>The comparison that the slice is sorted by: the \<open>less\<close> function of \<open>sort.Slice\<close>.\<close>

definition mutexRefLess :: "MutexRef \<Rightarrow> MutexRef \<Rightarrow> bool" where
  "mutexRefLess a b =
    (if refPkgPath a \<noteq> refPkgPath b then refPkgPath a < refPkgPath b
     else if refTypeName a \<noteq> refTypeName b then refTypeName a < refTypeName b
     else refFieldIndex a < refFieldIndex b)"

instantiation MutexRef :: linorder
begin

definition less_MutexRef :: "MutexRef \<Rightarrow> MutexRef \<Rightarrow> bool" where
  "less_MutexRef a b = mutexRefLess a b"

definition less_eq_MutexRef :: "MutexRef \<Rightarrow> MutexRef \<Rightarrow> bool" where
  "less_eq_MutexRef a b = (a < b \<or> a = b)"

instance
proof
  fix a b c :: MutexRef
  show "(a < b) = (a \<le> b \<and> \<not> b \<le> a)"
    by (cases a; cases b) (auto simp: less_MutexRef_def mutexRefLess_def less_eq_MutexRef_def split: if_splits)
  show "a \<le> a" by (simp add: less_eq_MutexRef_def)
  show "a \<le> b \<Longrightarrow> b \<le> c \<Longrightarrow> a \<le> c"
    by (cases a; cases b; cases c) (auto simp: less_MutexRef_def mutexRefLess_def less_eq_MutexRef_def split: if_splits)
  show "a \<le> b \<Longrightarrow> b \<le> a \<Longrightarrow> a = b"
    by (cases a; cases b) (auto simp: less_MutexRef_def mutexRefLess_def less_eq_MutexRef_def split: if_splits)
  show "a \<le> b \<or> b \<le> a"
    by (cases a; cases b) (auto simp: less_MutexRef_def mutexRefLess_def less_eq_MutexRef_def split: if_splits)
qed

end

definition mutexFieldKeyToRef :: "prog \<Rightarrow> mutexFieldKey \<Rightarrow> MutexRef" where
  "mutexFieldKeyToRef P mfk =
    MutexRef (case obj_pkg P (mfk_StructType mfk) of None \<Rightarrow> [] | Some p \<Rightarrow> pkgPath (pkg_at P p))
      (objName (named_at P (mfk_StructType mfk))) (mfk_FieldIndex mfk)"

definition findPackage :: "passContext \<Rightarrow> string \<Rightarrow> pkg option" where
  "findPackage ctx path =
    (let P = prog_of ctx; self = passPkg (pass ctx) in
     if path = pkgPath (pkg_at P self) then Some self
     else List.find (\<lambda>imp. pkgPath (pkg_at P imp) = path) (pkgImports (pkg_at P self)))"

definition mutexRefToKey :: "passContext \<Rightarrow> MutexRef \<Rightarrow> mutexFieldKey option" where
  "mutexRefToKey ctx ref =
    (let P = prog_of ctx in
     case findPackage ctx (refPkgPath ref) of
       None \<Rightarrow> None
     | Some p \<Rightarrow>
         (case gm_get (pkgScope (pkg_at P p)) (refTypeName ref) of
            None \<Rightarrow> None
          | Some OtherObj \<Rightarrow> None
          | Some (TypeName t) \<Rightarrow>
              (case as_named t of
                 None \<Rightarrow> None
               | Some n \<Rightarrow>
                   (case as_struct (Underlying P (Named n)) of
                      None \<Rightarrow> None
                    | Some fs \<Rightarrow>
                        if refFieldIndex ref \<ge> length fs then None
                        else Some \<lparr>mfk_StructType = n, mfk_FieldIndex = refFieldIndex ref\<rparr>))))"

definition mutexFieldKeySetToRefs :: "prog \<Rightarrow> mutexFieldKey list \<Rightarrow> MutexRef list" where
  "mutexFieldKeySetToRefs P ks = sort (map (mutexFieldKeyToRef P) ks)"

section \<open>Printing\<close>

definition FieldGuardFact_String :: "FieldGuardFact \<Rightarrow> string" where
  "FieldGuardFact_String f =
    ''FieldGuardFact{'' @
    Join (map (\<lambda>k. itoa k @ ''->'' @ itoa (case gm_get (factGuards f) k of None \<Rightarrow> 0 | Some m \<Rightarrow> m))
      (sort (gm_keys (factGuards f)))) '' '' @ ''}''"

definition fmtRefs :: "MutexRef list \<Rightarrow> string" where
  "fmtRefs refs =
    (if refs = [] then ''[]''
     else ''['' @ Join (map (\<lambda>r. refTypeName r @ ''.'' @ itoa (refFieldIndex r)) refs) '' '' @ '']'')"

definition FuncLockFact_String :: "FuncLockFact \<Rightarrow> string" where
  "FuncLockFact_String f =
    ''FuncLockFact{requires='' @ fmtRefs (factRequires f) @ '' acquires='' @ fmtRefs (factAcquires f) @ ''}''"

definition ConcurrentFact_String :: string where
  "ConcurrentFact_String = ''ConcurrentFact''"

section \<open>Import\<close>

definition importGuards :: "named \<Rightarrow> FieldGuardFact \<Rightarrow> (fieldKey, guardInfo) gomap \<Rightarrow> (fieldKey, guardInfo) gomap" where
  "importGuards n fct gs =
    fold (\<lambda>(fieldIndex, mutexFieldIndex) gs.
        gm_put gs \<lparr>fk_StructType = n, fk_FieldIndex = fieldIndex\<rparr>
          \<lparr>MutexFieldIndex = mutexFieldIndex,
           NeedsExclusive = (case gm_get (factNeedsExclusive fct) fieldIndex of None \<Rightarrow> False | Some b \<Rightarrow> b)\<rparr>)
      (factGuards fct) gs"

definition importTypeGuards ::
    "passContext \<Rightarrow> named \<Rightarrow> (fieldKey, guardInfo) gomap \<Rightarrow> (fieldKey, guardInfo) gomap" where
  "importTypeGuards ctx n gs =
    (case ImportTypeFact (pass ctx) (objIdent (named_at (prog_of ctx) n)) of
       None \<Rightarrow> gs
     | Some fct \<Rightarrow> importGuards n fct gs)"

definition importTypeOnce ::
    "passContext \<Rightarrow> fieldKey \<Rightarrow> named list \<times> (fieldKey, guardInfo) gomap \<Rightarrow>
      named list \<times> (fieldKey, guardInfo) gomap" where
  "importTypeOnce ctx key st =
    (case st of (seen, gs) \<Rightarrow>
       let n = fk_StructType key in
       if obj_pkg (prog_of ctx) n = Some (passPkg (pass ctx)) then (seen, gs)
       else if n \<in> set seen then (seen, gs)
       else (set_add seen n, importTypeGuards ctx n gs))"

definition importFieldGuardFacts :: "passContext \<Rightarrow> passContext" where
  "importFieldGuardFacts ctx =
    ctx\<lparr>guards := snd (fold (importTypeOnce ctx) (gm_keys (observations ctx)) ([], guards ctx))\<rparr>"

definition addRefs :: "passContext \<Rightarrow> MutexRef list \<Rightarrow> mutexFieldKey list \<Rightarrow> mutexFieldKey list" where
  "addRefs ctx refs s =
    fold (\<lambda>ref s. case mutexRefToKey ctx ref of None \<Rightarrow> s | Some mfk \<Rightarrow> set_add s mfk) refs s"

text \<open>The callees of the recorded calls that another package declares, each once.\<close>

definition importedCallee ::
    "passContext \<Rightarrow> callSiteRecord \<Rightarrow> func list \<times> (func \<times> func_obj) list \<Rightarrow>
      func list \<times> (func \<times> func_obj) list" where
  "importedCallee ctx cs st =
    (case st of (seen, out) \<Rightarrow>
       case fnObject (func_at (prog_of ctx) (Callee cs)) of
         None \<Rightarrow> (seen, out)
       | Some obj \<Rightarrow>
           if foPkg obj = Some (passPkg (pass ctx)) then (seen, out)
           else if Callee cs \<in> set seen then (seen, out)
           else (set_add seen (Callee cs), out @ [(Callee cs, obj)]))"

definition importedCallees :: "passContext \<Rightarrow> (func \<times> func_obj) list" where
  "importedCallees ctx = snd (fold (importedCallee ctx) (callSites ctx) ([], []))"

definition mergeFact :: "passContext \<Rightarrow> FuncLockFact \<Rightarrow> funcLockFacts \<Rightarrow> funcLockFacts" where
  "mergeFact ctx fct f = f\<lparr>
     Requires := addRefs ctx (factRequires fct) (Requires f),
     Acquires := addRefs ctx (factAcquires fct) (Acquires f),
     AcquiresTransitive := addRefs ctx (factAcquiresTransitive fct) (AcquiresTransitive f),
     ReturnsHolding := addRefs ctx (factReturnsHolding fct) (ReturnsHolding f)\<rparr>"

definition importFuncLockFacts :: "passContext \<Rightarrow> passContext" where
  "importFuncLockFacts ctx =
    fold (\<lambda>(callee, obj) ctx'.
        case ImportFuncFact (pass ctx) (foIdent obj) of
          None \<Rightarrow> ctx'
        | Some fct \<Rightarrow> updFuncFacts ctx' callee (mergeFact ctx fct))
      (importedCallees ctx) ctx"

definition importConcurrentFacts :: "passContext \<Rightarrow> passContext" where
  "importConcurrentFacts ctx =
    fold (\<lambda>(callee, obj) ctx'.
        if ImportConcurrentFact (pass ctx) (foIdent obj)
        then (case annos ctx' of
                None \<Rightarrow> ctx'
              | Some a \<Rightarrow> ctx'\<lparr>annos := Some (a\<lparr>concurrent := set_add (concurrent a) callee\<rparr>)\<rparr>)
        else ctx')
      (importedCallees ctx) ctx"

definition importFacts :: "passContext \<Rightarrow> passContext" where
  "importFacts ctx =
    (if nFactTypes (pass ctx) = 0 then ctx
     else importConcurrentFacts (importFuncLockFacts (importFieldGuardFacts ctx)))"

section \<open>Export\<close>

definition emptyFieldGuardFact :: FieldGuardFact where
  "emptyFieldGuardFact = \<lparr>factGuards = [], factNeedsExclusive = []\<rparr>"

definition typeGuards :: "(named, FieldGuardFact) gomap \<Rightarrow> named \<Rightarrow> FieldGuardFact" where
  "typeGuards byType n = (case gm_get byType n of None \<Rightarrow> emptyFieldGuardFact | Some tg \<Rightarrow> tg)"

definition exportedType :: "passContext \<Rightarrow> named \<Rightarrow> bool" where
  "exportedType ctx n \<longleftrightarrow> obj_pkg (prog_of ctx) n = Some (passPkg (pass ctx)) \<and>
    objExported (named_at (prog_of ctx) n)"

definition addTypeGuard ::
    "passContext \<Rightarrow> fieldKey \<times> guardInfo \<Rightarrow> (named, FieldGuardFact) gomap \<Rightarrow> (named, FieldGuardFact) gomap" where
  "addTypeGuard ctx kg byType =
    (case kg of (key, guard) \<Rightarrow>
       let n = fk_StructType key in
       if \<not> exportedType ctx n then byType
       else let tg = typeGuards byType n in
            gm_put byType n
              \<lparr>factGuards = gm_put (factGuards tg) (fk_FieldIndex key) (MutexFieldIndex guard),
               factNeedsExclusive = (if NeedsExclusive guard
                 then gm_put (factNeedsExclusive tg) (fk_FieldIndex key) True
                 else factNeedsExclusive tg)\<rparr>)"

definition guardsByType :: "passContext \<Rightarrow> (named, FieldGuardFact) gomap" where
  "guardsByType ctx = fold (addTypeGuard ctx) (guards ctx) []"

definition exportFieldGuardFacts :: "passContext \<Rightarrow> passContext" where
  "exportFieldGuardFacts ctx =
    (let byType = guardsByType ctx in
     ctx\<lparr>exportedTypeFacts := fold (\<lambda>(n, fct) out. gm_put out (objIdent (named_at (prog_of ctx) n)) fct)
       (shuffle (rangeOrder (pass ctx) ''exportFieldGuardFacts'' 0) byType) (exportedTypeFacts ctx)\<rparr>)"

definition exportable :: "passContext \<Rightarrow> func \<Rightarrow> func_obj option" where
  "exportable ctx fn =
    (case fnObject (func_at (prog_of ctx) fn) of
       None \<Rightarrow> None
     | Some obj \<Rightarrow>
         if foPkg obj \<noteq> Some (passPkg (pass ctx)) then None
         else if \<not> foExported obj then None
         else Some obj)"

definition toFuncLockFact :: "prog \<Rightarrow> funcLockFacts \<Rightarrow> FuncLockFact" where
  "toFuncLockFact P facts =
    \<lparr>factRequires = mutexFieldKeySetToRefs P (Requires facts),
     factAcquires = mutexFieldKeySetToRefs P (Acquires facts),
     factAcquiresTransitive = mutexFieldKeySetToRefs P (AcquiresTransitive facts),
     factReturnsHolding = mutexFieldKeySetToRefs P (ReturnsHolding facts)\<rparr>"

definition exportFuncLockFacts :: "passContext \<Rightarrow> passContext" where
  "exportFuncLockFacts ctx =
    ctx\<lparr>exportedFuncFacts := fold (\<lambda>(fn, facts) out.
        case exportable ctx fn of
          None \<Rightarrow> out
        | Some obj \<Rightarrow>
            if Requires facts = [] \<and> Acquires facts = [] \<and> AcquiresTransitive facts = [] \<and>
              ReturnsHolding facts = [] then out
            else gm_put out (foIdent obj) (toFuncLockFact (prog_of ctx) facts))
      (shuffle (rangeOrder (pass ctx) ''exportFuncLockFacts'' 0) (funcFacts ctx))
      (exportedFuncFacts ctx)\<rparr>"

definition exportConcurrentFacts :: "passContext \<Rightarrow> passContext" where
  "exportConcurrentFacts ctx =
    ctx\<lparr>exportedConcurrentFacts := fold (\<lambda>fn out.
        case exportable ctx fn of None \<Rightarrow> out | Some obj \<Rightarrow> set_add out (foIdent obj))
      (detectConcurrentEntrypoints ctx) (exportedConcurrentFacts ctx)\<rparr>"

definition exportFacts :: "passContext \<Rightarrow> passContext" where
  "exportFacts ctx =
    (if nFactTypes (pass ctx) = 0 then ctx
     else exportConcurrentFacts (exportFuncLockFacts (exportFieldGuardFacts ctx)))"

section \<open>References resolve back\<close>

text \<open>What the type checker guarantees of a package-level struct type of a package the pass sees: the
  path finds the package and its scope holds the type under its name.\<close>

definition resolvable :: "passContext \<Rightarrow> mutexFieldKey \<Rightarrow> bool" where
  "resolvable ctx k \<longleftrightarrow>
    (\<exists>p fs. obj_pkg (prog_of ctx) (mfk_StructType k) = Some p \<and>
      findPackage ctx (pkgPath (pkg_at (prog_of ctx) p)) = Some p \<and>
      gm_get (pkgScope (pkg_at (prog_of ctx) p)) (objName (named_at (prog_of ctx) (mfk_StructType k))) =
        Some (TypeName (Named (mfk_StructType k))) \<and>
      Underlying (prog_of ctx) (Named (mfk_StructType k)) = Struct fs \<and> mfk_FieldIndex k < length fs)"

lemma mutexRefToKey_ToRef:
  "resolvable ctx k \<Longrightarrow> mutexRefToKey ctx (mutexFieldKeyToRef (prog_of ctx) k) = Some k"
  by (auto simp: resolvable_def mutexRefToKey_def mutexFieldKeyToRef_def Let_def)

text \<open>What is resolved at all is a field of a struct.\<close>

lemma mutexRefToKey_valid:
  assumes "mutexRefToKey ctx ref = Some k"
  shows "mfk_FieldIndex k = refFieldIndex ref"
    and "\<exists>fs. Underlying (prog_of ctx) (Named (mfk_StructType k)) = Struct fs \<and> mfk_FieldIndex k < length fs"
  using assms by (auto simp: mutexRefToKey_def Let_def split: option.splits scope_obj.splits if_splits)

lemma set_mutexFieldKeySetToRefs:
  "set (mutexFieldKeySetToRefs P ks) = mutexFieldKeyToRef P ` set ks"
  by (simp add: mutexFieldKeySetToRefs_def)

text \<open>The exported slice is sorted and depends only on the set.\<close>

lemma mutexFieldKeySetToRefs_order:
  "mset ks = mset ks' \<Longrightarrow> mutexFieldKeySetToRefs P ks = mutexFieldKeySetToRefs P ks'"
  unfolding mutexFieldKeySetToRefs_def by (rule properties_for_sort) simp_all

lemma set_addRefs: "set (addRefs ctx refs s) = set s \<union> {k. \<exists>ref \<in> set refs. mutexRefToKey ctx ref = Some k}"
  unfolding addRefs_def by (induction refs arbitrary: s) (auto split: option.splits)

lemma addRefs_ToRefs:
  assumes "\<forall>k \<in> set ks. resolvable ctx k"
  shows "set (addRefs ctx (mutexFieldKeySetToRefs (prog_of ctx) ks) s) = set s \<union> set ks"
  using assms by (auto simp: set_addRefs set_mutexFieldKeySetToRefs mutexRefToKey_ToRef)

section \<open>Guards of imported types\<close>

definition imported_guard :: "FieldGuardFact \<Rightarrow> nat \<Rightarrow> guardInfo option" where
  "imported_guard fct i = map_option (\<lambda>m. \<lparr>MutexFieldIndex = m,
    NeedsExclusive = (gm_get (factNeedsExclusive fct) i = Some True)\<rparr>) (gm_get (factGuards fct) i)"

lemma get_importGuards:
  assumes "gm_ok (factGuards fct)"
  shows "gm_get (importGuards n fct gs) key =
    (if fk_StructType key = n \<and> imported_guard fct (fk_FieldIndex key) \<noteq> None
     then imported_guard fct (fk_FieldIndex key) else gm_get gs key)"
proof -
  have excl: "(case gm_get (factNeedsExclusive fct) i of None \<Rightarrow> False | Some b \<Rightarrow> b) \<longleftrightarrow>
      gm_get (factNeedsExclusive fct) i = Some True" for i
    by (auto split: option.splits)
  let ?f = "\<lambda>(fieldIndex, mutexFieldIndex) gs. gm_put gs \<lparr>fk_StructType = n, fk_FieldIndex = fieldIndex\<rparr>
      \<lparr>MutexFieldIndex = mutexFieldIndex, NeedsExclusive = (gm_get (factNeedsExclusive fct) fieldIndex = Some True)\<rparr>"
  have "gm_get (fold ?f m gs) key =
      (if fk_StructType key = n \<and> gm_get m (fk_FieldIndex key) \<noteq> None
       then map_option (\<lambda>x. \<lparr>MutexFieldIndex = x,
         NeedsExclusive = (gm_get (factNeedsExclusive fct) (fk_FieldIndex key) = Some True)\<rparr>)
         (gm_get m (fk_FieldIndex key)) else gm_get gs key)"
    if "gm_ok m" for m gs
    using that
  proof (induction m arbitrary: gs)
    case (Cons kv m)
    obtain i x where kv: "kv = (i, x)" by (cases kv)
    with Cons.prems have i: "gm_get m i = None" and ok: "gm_ok m"
      by (auto simp: gm_ok_def gm_get_def map_of_eq_None_iff)
    have get: "gm_get (kv # m) j = (if j = i then Some x else gm_get m j)" for j
      by (simp add: kv gm_get_def)
    show ?case
      unfolding fold_simps Cons.IH [OF ok] get using i by (cases key) (auto simp: kv)
  qed simp
  from this [OF assms, of gs] show ?thesis
    unfolding importGuards_def excl imported_guard_def by simp
qed

lemma get_importFieldGuardFacts:
  assumes facts: "\<And>i fct. ImportTypeFact (pass ctx) i = Some fct \<Longrightarrow> gm_ok (factGuards fct)"
    and obs: "\<exists>key' \<in> set (gm_keys (observations ctx)). fk_StructType key' = fk_StructType key"
    and foreign: "obj_pkg (prog_of ctx) (fk_StructType key) \<noteq> Some (passPkg (pass ctx))"
    and fct: "ImportTypeFact (pass ctx) (objIdent (named_at (prog_of ctx) (fk_StructType key))) = Some fct"
    and some: "imported_guard fct (fk_FieldIndex key) = Some g"
  shows "gm_get (guards (importFieldGuardFacts ctx)) key = Some g"
proof -
  have imp: "gm_get (importTypeGuards ctx n gs) key =
      (if n = fk_StructType key then Some g else gm_get gs key)" for n gs
    using fct some facts by (auto simp: importTypeGuards_def get_importGuards split: option.splits)
  have "gm_get (snd (fold (importTypeOnce ctx) ks (seen, gs))) key = Some g"
    if "fk_StructType key \<in> set seen \<longrightarrow> gm_get gs key = Some g"
      "fk_StructType key \<in> set seen \<or> (\<exists>key' \<in> set ks. fk_StructType key' = fk_StructType key)" for ks seen gs
    using that
  proof (induction ks arbitrary: seen gs)
    case (Cons k ks)
    let ?n = "fk_StructType k"
    show ?case
    proof (cases "obj_pkg (prog_of ctx) ?n = Some (passPkg (pass ctx)) \<or> ?n \<in> set seen")
      case True
      then have "importTypeOnce ctx k (seen, gs) = (seen, gs)" by (auto simp: importTypeOnce_def Let_def)
      with Cons.IH [of seen gs] Cons.prems foreign True show ?thesis by auto
    next
      case False
      then have "importTypeOnce ctx k (seen, gs) = (set_add seen ?n, importTypeGuards ctx ?n gs)"
        by (simp add: importTypeOnce_def Let_def)
      with Cons.IH [of "set_add seen ?n" "importTypeGuards ctx ?n gs"] Cons.prems imp show ?thesis
        by (cases "?n = fk_StructType key") auto
    qed
  qed simp
  from this [of "[]" "guards ctx" "gm_keys (observations ctx)"] obs show ?thesis
    by (simp add: importFieldGuardFacts_def Let_def)
qed

section \<open>Guards survive export and import\<close>

definition field_key :: "named \<Rightarrow> nat \<Rightarrow> fieldKey" where
  "field_key n i = \<lparr>fk_StructType = n, fk_FieldIndex = i\<rparr>"

lemma typeGuards_put [simp]:
  "typeGuards (gm_put byType n tg) m = (if m = n then tg else typeGuards byType m)"
  by (simp add: typeGuards_def)

lemma imported_addTypeGuard:
  assumes "gm_get (factGuards (typeGuards byType (fk_StructType key))) (fk_FieldIndex key) = None"
    and "gm_get (factNeedsExclusive (typeGuards byType (fk_StructType key))) (fk_FieldIndex key) = None"
  shows "imported_guard (typeGuards (addTypeGuard ctx (key, guard) byType) n) i =
    (if exportedType ctx n \<and> field_key n i = key then Some guard
     else imported_guard (typeGuards byType n) i)"
  using assms
  by (cases guard; cases key)
    (auto simp: addTypeGuard_def Let_def imported_guard_def field_key_def)

definition fresh_key :: "(named, FieldGuardFact) gomap \<Rightarrow> fieldKey \<Rightarrow> bool" where
  "fresh_key byType key \<longleftrightarrow>
    gm_get (factGuards (typeGuards byType (fk_StructType key))) (fk_FieldIndex key) = None \<and>
    gm_get (factNeedsExclusive (typeGuards byType (fk_StructType key))) (fk_FieldIndex key) = None"

lemma fresh_key_addTypeGuard:
  "fresh_key byType key \<Longrightarrow> key \<noteq> fst kg \<Longrightarrow> fresh_key (addTypeGuard ctx kg byType) key"
  by (cases kg; cases key; cases "fst kg")
    (auto simp: fresh_key_def addTypeGuard_def Let_def)

lemma imported_guardsByType:
  assumes ok: "gm_ok (guards ctx)" and exported: "exportedType ctx n"
  shows "imported_guard (typeGuards (guardsByType ctx) n) i = gm_get (guards ctx) (field_key n i)"
proof -
  have "imported_guard (typeGuards (fold (addTypeGuard ctx) gs byType) n) i =
      (case gm_get gs (field_key n i) of None \<Rightarrow> imported_guard (typeGuards byType n) i | Some g \<Rightarrow> Some g)"
    if "gm_ok gs" "\<forall>key \<in> fst ` set gs. fresh_key byType key" for gs byType
    using that
  proof (induction gs arbitrary: byType)
    case (Cons kg gs)
    obtain key guard where kg: "kg = (key, guard)" by (cases kg)
    with Cons.prems have ok: "gm_ok gs" and new: "key \<notin> fst ` set gs" "gm_get gs key = None"
      by (auto simp: gm_ok_def gm_get_def map_of_eq_None_iff)
    have "\<forall>k \<in> fst ` set gs. fresh_key (addTypeGuard ctx kg byType) k"
    proof
      fix k assume "k \<in> fst ` set gs"
      then show "fresh_key (addTypeGuard ctx kg byType) k"
        using Cons.prems(2) new(1) kg by (intro fresh_key_addTypeGuard) auto
    qed
    note IH = Cons.IH [OF ok this]
    have "fresh_key byType key" using Cons.prems(2) kg by simp
    then have "imported_guard (typeGuards (addTypeGuard ctx kg byType) n) i =
        (if field_key n i = key then Some guard else imported_guard (typeGuards byType n) i)"
      using imported_addTypeGuard [of byType key ctx guard n i] exported kg by (simp add: fresh_key_def)
    moreover have "gm_get (kg # gs) k = (if k = key then Some guard else gm_get gs k)" for k
      by (simp add: kg gm_get_def)
    ultimately show ?case using IH new(2) by (auto split: option.splits)
  qed simp
  from this [OF ok, of "[]"] show ?thesis
    by (auto simp: guardsByType_def fresh_key_def typeGuards_def emptyFieldGuardFact_def
        imported_guard_def split: option.splits)
qed

lemma gm_ok_factGuards:
  assumes "gm_get (guardsByType ctx) n = Some fct"
  shows "gm_ok (factGuards fct)"
proof -
  have "\<forall>n fct. gm_get (fold (addTypeGuard ctx) gs byType) n = Some fct \<longrightarrow> gm_ok (factGuards fct)"
    if "\<forall>n fct. gm_get byType n = Some fct \<longrightarrow> gm_ok (factGuards fct)" for gs byType
    using that
  proof (induction gs arbitrary: byType)
    case (Cons kg gs)
    have "\<forall>n fct. gm_get (addTypeGuard ctx kg byType) n = Some fct \<longrightarrow> gm_ok (factGuards fct)"
      using Cons.prems by (cases kg) (auto simp: addTypeGuard_def Let_def typeGuards_def
          emptyFieldGuardFact_def split: option.splits)
    from Cons.IH [OF this] show ?case by simp
  qed simp
  from this [of "[]"] assms show ?thesis by (simp add: guardsByType_def)
qed

lemma gm_ok_guardsByType: "gm_ok (guardsByType ctx)"
proof -
  have "gm_ok (fold (addTypeGuard ctx) gs byType)" if "gm_ok byType" for gs byType
    using that by (induction gs arbitrary: byType) (auto simp: addTypeGuard_def Let_def)
  then show ?thesis by (simp add: guardsByType_def)
qed

text \<open>A fact is exported for every type with a guarded field, unless another type with the same object
  overwrites it.\<close>

lemma exportFieldGuardFacts_get:
  assumes "gm_get (guardsByType ctx) n = Some fct"
    and inj: "inj_on (\<lambda>n. objIdent (named_at (prog_of ctx) n)) (set (gm_keys (guardsByType ctx)))"
  shows "gm_get (exportedTypeFacts (exportFieldGuardFacts ctx)) (objIdent (named_at (prog_of ctx) n)) = Some fct"
proof -
  let ?id = "\<lambda>n. objIdent (named_at (prog_of ctx) n)"
  let ?sh = "shuffle (rangeOrder (pass ctx) ''exportFieldGuardFacts'' 0) (guardsByType ctx)"
  let ?kvs = "map (\<lambda>(n, fct). (?id n, fct)) ?sh"
  have "fold (\<lambda>(n, fct) out. gm_put out (?id n) fct) ?sh = fold (\<lambda>(k, v) out. gm_put out k v) ?kvs"
    unfolding fold_map comp_def case_prod_beta by simp
  then have get: "gm_get (exportedTypeFacts (exportFieldGuardFacts ctx)) (?id n) =
      (case map_of (rev ?kvs) (?id n) of None \<Rightarrow> gm_get (exportedTypeFacts ctx) (?id n) | Some v \<Rightarrow> Some v)"
    by (simp add: exportFieldGuardFacts_def Let_def gm.get_fold_put)
  have ok: "distinct (map fst (guardsByType ctx))" using gm_ok_guardsByType [of ctx] by (simp add: gm_ok_def)
  have "mset (map fst ?sh) = mset (map fst (guardsByType ctx))" by simp
  then have "distinct (map fst ?sh)" "set (map fst ?sh) = set (gm_keys (guardsByType ctx))"
    using ok mset_eq_imp_distinct_iff mset_eq_setD unfolding gm_keys_def by blast+
  then have "distinct (map ?id (map fst ?sh))" using inj unfolding distinct_map [of ?id] by metis
  then have "distinct (map fst (rev ?kvs))"
    by (simp add: rev_map [symmetric] case_prod_beta comp_def)
  moreover have "(?id n, fct) \<in> set (rev ?kvs)"
    using assms(1) by (force simp: gm_get_Some_in [OF gm_ok_guardsByType])
  ultimately have "map_of (rev ?kvs) (?id n) = Some fct" by simp
  then show ?thesis using get by simp
qed

section \<open>Function facts survive export and import\<close>

lemma importedCallees_spec:
  "(callee, obj) \<in> set (importedCallees ctx) \<longleftrightarrow> callee \<in> Callee ` set (callSites ctx) \<and>
    fnObject (func_at (prog_of ctx) callee) = Some obj \<and> foPkg obj \<noteq> Some (passPkg (pass ctx))"
  "distinct (map fst (importedCallees ctx))"
proof -
  define good where "good callee obj \<longleftrightarrow> fnObject (func_at (prog_of ctx) callee) = Some obj \<and>
      foPkg obj \<noteq> Some (passPkg (pass ctx))" for callee obj
  define inv where "inv css st \<longleftrightarrow> (case st of (seen, out) \<Rightarrow> map fst out = seen \<and> distinct seen \<and>
      (\<forall>callee obj. (callee, obj) \<in> set out \<longleftrightarrow> callee \<in> Callee ` css \<and> good callee obj))"
    for css :: "callSiteRecord set" and st :: "func list \<times> (func \<times> func_obj) list"
  have step: "inv (insert cs css) (importedCallee ctx cs st)" if "inv css st" for cs css st
  proof (cases "\<exists>obj. good (Callee cs) obj \<and> Callee cs \<notin> set (fst st)")
    case True
    then obtain obj where obj: "good (Callee cs) obj" "Callee cs \<notin> set (fst st)" by blast
    then have "importedCallee ctx cs st = (set_add (fst st) (Callee cs), snd st @ [(Callee cs, obj)])"
      by (cases st) (simp add: good_def importedCallee_def)
    with that obj show ?thesis
      by (cases st) (auto simp: inv_def set_add_def good_def)
  next
    case False
    then have "importedCallee ctx cs st = st" by (cases st) (auto simp: good_def importedCallee_def split: option.splits)
    moreover have "Callee cs \<in> Callee ` css" if "good (Callee cs) obj" for obj
    proof -
      from False that have "Callee cs \<in> set (fst st)" by blast
      with \<open>inv css st\<close> show ?thesis by (cases st) (force simp: inv_def)
    qed
    ultimately show ?thesis using that by (cases st) (auto simp: inv_def)
  qed
  have "inv (css \<union> set xs) (fold (importedCallee ctx) xs st)" if "inv css st" for css xs st
    using that
  proof (induction xs arbitrary: css st)
    case (Cons x xs)
    from Cons.IH [OF step [OF Cons.prems, of x]] show ?case by simp
  qed simp
  from this [of "{}" "([], [])" "callSites ctx"]
  have "inv (set (callSites ctx)) (fold (importedCallee ctx) (callSites ctx) ([], []))" by (simp add: inv_def)
  then obtain seen where "inv (set (callSites ctx)) (seen, importedCallees ctx)"
    unfolding importedCallees_def by (cases "fold (importedCallee ctx) (callSites ctx) ([], [])") auto
  then show "(callee, obj) \<in> set (importedCallees ctx) \<longleftrightarrow> callee \<in> Callee ` set (callSites ctx) \<and>
      fnObject (func_at (prog_of ctx) callee) = Some obj \<and> foPkg obj \<noteq> Some (passPkg (pass ctx))"
    "distinct (map fst (importedCallees ctx))"
    by (auto simp: inv_def good_def)
qed

text \<open>The sets of an imported fact are added to the facts of the callee.\<close>

lemma factsOf_importFuncLockFacts:
  assumes "callee \<in> Callee ` set (callSites ctx)" and "fnObject (func_at (prog_of ctx) callee) = Some obj"
    and "foPkg obj \<noteq> Some (passPkg (pass ctx))" and "ImportFuncFact (pass ctx) (foIdent obj) = Some fct"
  shows "factsOf (importFuncLockFacts ctx) callee = mergeFact ctx fct (factsOf ctx callee)"
proof -
  let ?f = "\<lambda>(callee, obj) ctx'. case ImportFuncFact (pass ctx) (foIdent obj) of
          None \<Rightarrow> ctx' | Some fct \<Rightarrow> updFuncFacts ctx' callee (mergeFact ctx fct)"
  have other: "factsOf (fold ?f cos c) callee = factsOf c callee" if "callee \<notin> fst ` set cos" for cos c
    using that by (induction cos arbitrary: c) (auto split: option.splits)
  have "(callee, obj) \<in> set (importedCallees ctx)" using assms by (simp add: importedCallees_spec)
  then obtain as bs where ab: "importedCallees ctx = as @ (callee, obj) # bs" by (meson split_list)
  with importedCallees_spec(2) [of ctx] have "callee \<notin> fst ` set as" "callee \<notin> fst ` set bs" by auto
  then have "factsOf (fold ?f (importedCallees ctx) ctx) callee = mergeFact ctx fct (factsOf ctx callee)"
    by (simp add: ab other assms(4))
  then show ?thesis by (simp add: importFuncLockFacts_def)
qed

lemma exportFuncLockFacts_get:
  assumes "gm_ok (funcFacts ctx)" and "gm_get (funcFacts ctx) fn = Some facts"
    and obj: "exportable ctx fn = Some obj"
    and "Requires facts \<noteq> [] \<or> Acquires facts \<noteq> [] \<or> AcquiresTransitive facts \<noteq> [] \<or> ReturnsHolding facts \<noteq> []"
    and inj: "\<And>g obj'. g \<in> set (gm_keys (funcFacts ctx)) \<Longrightarrow> exportable ctx g = Some obj' \<Longrightarrow>
      foIdent obj' = foIdent obj \<Longrightarrow> g = fn"
  shows "gm_get (exportedFuncFacts (exportFuncLockFacts ctx)) (foIdent obj) =
    Some (toFuncLockFact (prog_of ctx) facts)"
proof -
  let ?f = "\<lambda>(fn, facts) out. case exportable ctx fn of
          None \<Rightarrow> out
        | Some obj \<Rightarrow>
            if Requires facts = [] \<and> Acquires facts = [] \<and> AcquiresTransitive facts = [] \<and>
              ReturnsHolding facts = [] then out
            else gm_put out (foIdent obj) (toFuncLockFact (prog_of ctx) facts)"
  let ?sh = "shuffle (rangeOrder (pass ctx) ''exportFuncLockFacts'' 0) (funcFacts ctx)"
  have other: "gm_get (fold ?f xs out) (foIdent obj) = gm_get out (foIdent obj)"
    if "\<forall>x \<in> set xs. \<forall>obj'. exportable ctx (fst x) = Some obj' \<longrightarrow> foIdent obj' \<noteq> foIdent obj" for xs out
    using that by (induction xs arbitrary: out) (auto split: option.splits)
  have "(fn, facts) \<in> set ?sh" using assms(1, 2) by (simp add: gm_get_Some_in)
  then obtain as bs where ab: "?sh = as @ (fn, facts) # bs" by (meson split_list)
  have "mset (map fst ?sh) = mset (map fst (funcFacts ctx))" by simp
  then have "distinct (map fst ?sh)"
    using assms(1) mset_eq_imp_distinct_iff unfolding gm_ok_def by blast
  then have "fn \<notin> fst ` set bs" by (simp add: ab)
  moreover have "fst ` set bs \<subseteq> set (gm_keys (funcFacts ctx))"
    using arg_cong [OF ab, of set] by (auto simp: gm_keys_def)
  ultimately have "\<forall>x \<in> set bs. \<forall>obj'. exportable ctx (fst x) = Some obj' \<longrightarrow> foIdent obj' \<noteq> foIdent obj"
    using inj by (metis image_eqI subsetD)
  then have "gm_get (fold ?f ?sh (exportedFuncFacts ctx)) (foIdent obj) =
      Some (toFuncLockFact (prog_of ctx) facts)"
    using assms(4) obj by (auto simp: ab other)
  then show ?thesis by (simp add: exportFuncLockFacts_def)
qed

section \<open>What import and export leave alone\<close>

lemma importFacts_frame [simp]:
  "pass (importFacts ctx) = pass ctx"
  "srcFuncs (importFacts ctx) = srcFuncs ctx"
  "observations (importFacts ctx) = observations ctx"
  "callSites (importFacts ctx) = callSites ctx"
  "diagnostics (importFacts ctx) = diagnostics ctx"
  "orderGraph (importFacts ctx) = orderGraph ctx"
  "lockLeakCandidates (importFacts ctx) = lockLeakCandidates ctx"
proof -
  have func: "facts_only ctx (importFuncLockFacts ctx)" for ctx
    unfolding importFuncLockFacts_def
    by (rule fold_invariant [where P = "facts_only ctx" and Q = "\<lambda>_. True"])
      (auto intro: facts_only_trans [OF _ facts_only_upd] split: option.splits)
  have conc: "\<exists>a. importConcurrentFacts ctx = ctx\<lparr>annos := a\<rparr>" for ctx
    unfolding importConcurrentFacts_def
    by (rule fold_invariant [where P = "\<lambda>c. \<exists>a. c = ctx\<lparr>annos := a\<rparr>" and Q = "\<lambda>_. True"])
      (auto split: option.splits intro: exI [of _ "annos ctx"])
  have guards: "\<exists>gs. importFieldGuardFacts ctx = ctx\<lparr>guards := gs\<rparr>"
    by (auto simp: importFieldGuardFacts_def)
  from guards obtain gs where gs: "importFieldGuardFacts ctx = ctx\<lparr>guards := gs\<rparr>" ..
  from func [of "ctx\<lparr>guards := gs\<rparr>"] obtain fs where
    fs: "importFuncLockFacts (ctx\<lparr>guards := gs\<rparr>) = ctx\<lparr>guards := gs, funcFacts := fs\<rparr>"
    by (auto simp: facts_only_def)
  from conc [of "ctx\<lparr>guards := gs, funcFacts := fs\<rparr>"] obtain a where
    a: "importConcurrentFacts (ctx\<lparr>guards := gs, funcFacts := fs\<rparr>) =
      ctx\<lparr>guards := gs, funcFacts := fs, annos := a\<rparr>" ..
  show "pass (importFacts ctx) = pass ctx" "srcFuncs (importFacts ctx) = srcFuncs ctx"
    "observations (importFacts ctx) = observations ctx" "callSites (importFacts ctx) = callSites ctx"
    "diagnostics (importFacts ctx) = diagnostics ctx" "orderGraph (importFacts ctx) = orderGraph ctx"
    "lockLeakCandidates (importFacts ctx) = lockLeakCandidates ctx"
    by (simp_all add: importFacts_def gs fs a)
qed

lemma exportFacts_diagnostics [simp]: "diagnostics (exportFacts ctx) = diagnostics ctx"
  by (simp add: exportFacts_def exportConcurrentFacts_def exportFuncLockFacts_def
      exportFieldGuardFacts_def Let_def)

end
