(* ===== verification/Reporter.thy ===== *)
theory Reporter
  imports Facts
begin

text \<open>
  \<open>pkg/analyzer/reporter.go\<close>: the phases that turn facts and candidates into diagnostics. (The reports
  of the SSA walk are in \<open>Walk_Reports\<close>, names of locks in \<open>Pass_Context\<close>.) Loops over maps run in any
  order of their keys, since the order of the diagnostics follows it.
\<close>

section \<open>Direct violations\<close>

definition report_field ::
    "passContext \<Rightarrow> observation \<Rightarrow> fieldKey \<Rightarrow> guardInfo \<Rightarrow>
      (string \<Rightarrow> string \<Rightarrow> string \<Rightarrow> diagnostic) \<Rightarrow> passContext" where
  "report_field ctx obs key guard d =
    (if isSuppressed ctx (obsFunc obs) (obsPos obs) then ctx
     else case as_struct (Underlying (prog_of ctx) (Named (fk_StructType key))) of
         None \<Rightarrow> ctx
       | Some fs \<Rightarrow>
           if fk_FieldIndex key \<ge> length fs \<or> MutexFieldIndex guard \<ge> length fs then ctx
           else report ctx (obsPos obs)
             (d (objName (named_at (prog_of ctx) (fk_StructType key)))
                (fieldName (fs ! fk_FieldIndex key)) (fieldName (fs ! MutexFieldIndex guard))))"

definition reportViolation :: "passContext \<Rightarrow> observation \<Rightarrow> fieldKey \<Rightarrow> guardInfo \<Rightarrow> passContext" where
  "reportViolation ctx obs key guard = report_field ctx obs key guard Violation"

definition reportWriteUnderSharedLock ::
    "passContext \<Rightarrow> observation \<Rightarrow> fieldKey \<Rightarrow> guardInfo \<Rightarrow> passContext" where
  "reportWriteUnderSharedLock ctx obs key guard = report_field ctx obs key guard WriteUnderSharedLock"

definition shouldSuppressDirectViolation :: "passContext \<Rightarrow> func \<Rightarrow> mutexFieldKey \<Rightarrow> bool" where
  "shouldSuppressDirectViolation ctx fn mfk =
    (case gm_get (funcFacts ctx) fn of
       None \<Rightarrow> False
     | Some facts \<Rightarrow> if mfk \<notin> set (Requires facts) then False else hasCallers ctx fn)"

definition checkObservation ::
    "fieldKey \<Rightarrow> guardInfo \<Rightarrow> observation \<Rightarrow> passContext \<Rightarrow> passContext" where
  "checkObservation key guard obs ctx =
    (if isConstructorLike (prog_of ctx) (obsFunc obs) (fk_StructType key) then ctx
     else
       let found = List.find (\<lambda>hmf. hmf_FieldIndex hmf = MutexFieldIndex guard) (SameBaseMutexFields obs);
           isHeld = (found \<noteq> None);
           heldExclusive = (case found of None \<Rightarrow> False | Some hmf \<Rightarrow> hmf_Exclusive hmf)
       in if isHeld \<and> \<not> IsRead obs \<and> \<not> heldExclusive then
            (if isConcurrent ctx (obsFunc obs) then reportWriteUnderSharedLock ctx obs key guard else ctx)
          else if \<not> isHeld then
            (if \<not> isConcurrent ctx (obsFunc obs) then ctx
             else if shouldSuppressDirectViolation ctx (obsFunc obs)
                 \<lparr>mfk_StructType = fk_StructType key, mfk_FieldIndex = MutexFieldIndex guard\<rparr> then ctx
             else reportViolation ctx obs key guard)
          else ctx)"

definition checkViolations :: "passContext \<Rightarrow> passContext" where
  "checkViolations ctx =
    fold (\<lambda>key ctx'. case gm_get (guards ctx) key of
        None \<Rightarrow> ctx'
      | Some guard \<Rightarrow> fold (checkObservation key guard) (gm_slice (observations ctx) key) ctx')
      (shuffle (rangeOrder (pass ctx) ''checkViolations'' 0) (gm_keys (guards ctx))) ctx"

section \<open>Acquire helpers\<close>

definition returnPositions :: "passContext \<Rightarrow> (func \<times> mutexFieldKey, pos list) gomap" where
  "returnPositions ctx =
    fold (\<lambda>c m. case lockRefToMutexFieldKey (prog_of ctx) (llc_Ref c) of
        None \<Rightarrow> m
      | Some mfk \<Rightarrow>
          gm_put m (llc_Fn c, mfk) (set_add (gm_slice m (llc_Fn c, mfk)) (llc_Pos c)))
      (concat (map snd (lockLeakCandidates ctx))) []"

fun is_return :: "ssa_instr \<Rightarrow> bool" where
  "is_return (IReturn p) = True"
| "is_return i = False"

definition returnCount :: "passContext \<Rightarrow> func \<Rightarrow> nat" where
  "returnCount ctx fn =
    sum_list (map (\<lambda>g. if g = fn
        then sum_list (map (\<lambda>block. length (filter is_return (Instrs block)))
          (Blocks (func_at (prog_of ctx) g)))
        else 0) (srcFuncs ctx))"

definition computeReturnsHolding :: "passContext \<Rightarrow> passContext" where
  "computeReturnsHolding ctx =
    fold (\<lambda>((fn, mfk), positions) ctx'.
        if length positions = returnCount ctx fn \<and> returnCount ctx fn > 0
        then updFuncFacts ctx' fn (\<lambda>f. f\<lparr>ReturnsHolding := set_add (ReturnsHolding f) mfk\<rparr>)
        else ctx')
      (returnPositions ctx) ctx"

definition report_key ::
    "passContext \<Rightarrow> func \<Rightarrow> pos \<Rightarrow> mutexFieldKey \<Rightarrow> (string \<Rightarrow> diagnostic) \<Rightarrow> passContext" where
  "report_key ctx fn p mfk d =
    (if isSuppressed ctx fn p then ctx
     else let name = mutexFieldKeyName (prog_of ctx) mfk in
          if name = '''' then ctx else report ctx p (d name))"

definition reportAcquireHelper :: "passContext \<Rightarrow> func \<Rightarrow> mutexFieldKey \<Rightarrow> passContext" where
  "reportAcquireHelper ctx fn mfk =
    report_key ctx fn (fnPos (func_at (prog_of ctx) fn)) mfk (AcquireHelper (fnName (func_at (prog_of ctx) fn)))"

definition reportCallerMissingUnlock :: "passContext \<Rightarrow> callSiteRecord \<Rightarrow> mutexFieldKey \<Rightarrow> passContext" where
  "reportCallerMissingUnlock ctx cs mfk =
    report_key ctx (Caller cs) (csPos cs) mfk
      (CallerMissingUnlock (fnName (func_at (prog_of ctx) (Caller cs)))
        (fnName (func_at (prog_of ctx) (Callee cs))))"

definition reportAcquireHelpers :: "passContext \<Rightarrow> passContext" where
  "reportAcquireHelpers ctx =
    fold (\<lambda>(fn, facts) ctx'. fold (\<lambda>mfk ctx'. reportAcquireHelper ctx' fn mfk)
        (shuffle (rangeOrder (pass ctx) ''checkCallersOfAcquireHelpers.keys'' fn) (ReturnsHolding facts)) ctx')
      (shuffle (rangeOrder (pass ctx) ''checkCallersOfAcquireHelpers'' 0) (funcFacts ctx)) ctx"

definition checkCallerReleases :: "passContext \<Rightarrow> nat \<times> callSiteRecord \<Rightarrow> passContext \<Rightarrow> passContext" where
  "checkCallerReleases ctx0 ics ctx =
    (case ics of (i, cs) \<Rightarrow>
       case gm_get (funcFacts ctx) (Callee cs) of
         None \<Rightarrow> ctx
       | Some calleeFacts \<Rightarrow>
           if length (ReturnsHolding calleeFacts) = 0 then ctx
           else case getOrCreateFuncFacts ctx (Caller cs) of (callerFacts, ctx1) \<Rightarrow>
             fold (\<lambda>mfk ctx'.
                 if mfk \<in> set (ReturnsHolding callerFacts) then ctx'
                 else if mfk \<in> set (Releases callerFacts) then ctx'
                 else reportCallerMissingUnlock ctx' cs mfk)
               (shuffle (rangeOrder (pass ctx0) ''checkCallersOfAcquireHelpers.sites'' i)
                 (ReturnsHolding calleeFacts)) ctx1)"

definition checkCallersOfAcquireHelpers :: "passContext \<Rightarrow> passContext" where
  "checkCallersOfAcquireHelpers ctx =
    fold (checkCallerReleases ctx) (enumerate 0 (callSites ctx)) (reportAcquireHelpers ctx)"

section \<open>Lock leaks and unlocks of unlocked mutexes\<close>

definition functionRequiresMutex :: "passContext \<Rightarrow> func \<Rightarrow> lockRef \<Rightarrow> bool" where
  "functionRequiresMutex ctx fn ref =
    (case lockRefToMutexFieldKey (prog_of ctx) ref of
       None \<Rightarrow> False
     | Some mfk \<Rightarrow>
         (case gm_get (funcFacts ctx) fn of
            None \<Rightarrow> False
          | Some facts \<Rightarrow> mfk \<in> set (Requires facts)))"

definition reportLockLeak :: "passContext \<Rightarrow> lockLeakCandidate \<Rightarrow> passContext" where
  "reportLockLeak ctx c =
    (let q = Fset (pass ctx) (llc_AcquirePos c) in
     report_lock ctx (llc_Fn c) (llc_Pos c) (llc_Ref c)
       (\<lambda>name. LockLeak name (Base (Filename q)) (Line q) (Column q)))"

definition isAcquireHelperFor :: "passContext \<Rightarrow> func \<Rightarrow> lockRef \<Rightarrow> bool" where
  "isAcquireHelperFor ctx fn ref =
    (case lockRefToMutexFieldKey (prog_of ctx) ref of
       None \<Rightarrow> False
     | Some mfk \<Rightarrow>
         (case gm_get (funcFacts ctx) fn of
            None \<Rightarrow> False
          | Some facts \<Rightarrow> mfk \<in> set (ReturnsHolding facts)))"

definition checkLeak :: "lockLeakCandidate \<Rightarrow> passContext \<Rightarrow> passContext" where
  "checkLeak c ctx =
    (if functionRequiresMutex ctx (llc_Fn c) (llc_Ref c) then ctx
     else if \<lparr>dlt_fn = llc_Fn c, dlt_ref = llc_Ref c\<rparr> \<in> set (deferredLockTypoReported ctx) then ctx
     else if isAcquireHelperFor ctx (llc_Fn c) (llc_Ref c) then ctx
     else reportLockLeak ctx c)"

definition reportDeferredLockLeaks :: "passContext \<Rightarrow> passContext" where
  "reportDeferredLockLeaks ctx =
    fold (\<lambda>p. fold checkLeak (gm_slice (lockLeakCandidates ctx) p))
      (shuffle (rangeOrder (pass ctx) ''reportDeferredLockLeaks'' 0) (gm_keys (lockLeakCandidates ctx))) ctx"

definition calleeReturnsHolding :: "passContext \<Rightarrow> func \<Rightarrow> mutexFieldKey \<Rightarrow> bool" where
  "calleeReturnsHolding ctx fn mfk =
    list_ex (\<lambda>cs. Caller cs = fn \<and>
      (case gm_get (funcFacts ctx) (Callee cs) of
         None \<Rightarrow> False
       | Some calleeFacts \<Rightarrow> mfk \<in> set (ReturnsHolding calleeFacts))) (callSites ctx)"

definition reportUnlockOfUnlocked :: "passContext \<Rightarrow> func \<Rightarrow> pos \<Rightarrow> lockRef \<Rightarrow> passContext" where
  "reportUnlockOfUnlocked ctx fn p ref = report_lock ctx fn p ref UnlockOfUnlocked"

definition checkUnlock :: "unlockOfUnlockedCandidate \<Rightarrow> passContext \<Rightarrow> passContext" where
  "checkUnlock c ctx =
    (if functionRequiresMutex ctx (uuc_Fn c) (uuc_Ref c) then ctx
     else if (case lockRefToMutexFieldKey (prog_of ctx) (uuc_Ref c) of
         None \<Rightarrow> False | Some mfk \<Rightarrow> calleeReturnsHolding ctx (uuc_Fn c) mfk) then ctx
     else reportUnlockOfUnlocked ctx (uuc_Fn c) (uuc_Pos c) (uuc_Ref c))"

definition reportDeferredUnlockOfUnlocked :: "passContext \<Rightarrow> passContext" where
  "reportDeferredUnlockOfUnlocked ctx = fold checkUnlock (unlockOfUnlockedCandidates ctx) ctx"

section \<open>Lock-order cycles\<close>

definition cycle_names :: "prog \<Rightarrow> lockOrderCycle \<Rightarrow> string list" where
  "cycle_names P cycle =
    fold (\<lambda>e names.
        let fromName = mutexFieldKeyName P (edgeFrom e) in
        if fromName \<noteq> '''' then set_add names fromName else names)
      cycle []"

definition reportLockOrderCycle :: "passContext \<Rightarrow> lockOrderCycle \<Rightarrow> passContext" where
  "reportLockOrderCycle ctx cycle =
    (case cycle of
       [] \<Rightarrow> ctx
     | edge # _ \<Rightarrow>
         if isSuppressed ctx (edgeFn edge) (edgePos edge) then ctx
         else (case cycle_names (prog_of ctx) cycle of
             [] \<Rightarrow> ctx
           | [n] \<Rightarrow> report ctx (edgePos edge) (CycleOn n)
           | n # m # _ \<Rightarrow> report ctx (edgePos edge) (CycleBetween n m)))"

definition detectAndReportLockOrderCycles :: "passContext \<Rightarrow> passContext" where
  "detectAndReportLockOrderCycles ctx =
    fold (\<lambda>cycle ctx'.
        if list_ex (\<lambda>edge. isConcurrent ctx' (edgeFn edge)) cycle then reportLockOrderCycle ctx' cycle else ctx')
      (detectCycles (prog_of ctx) (\<lambda>key. rangeOrder (pass ctx) ''detectCycles.edges''
          (choice2 (mfk_StructType key) (mfk_FieldIndex key)))
        (rangeOrder (pass ctx) ''detectCycles'' 0) (orderGraph ctx)) ctx"

section \<open>Exported guarded fields\<close>

definition reportExportedGuardedField ::
    "passContext \<Rightarrow> fieldKey \<Rightarrow> guardInfo \<Rightarrow> gofield \<Rightarrow> passContext" where
  "reportExportedGuardedField ctx key guard field =
    (case as_struct (Underlying (prog_of ctx) (Named (fk_StructType key))) of
       None \<Rightarrow> ctx
     | Some fs \<Rightarrow>
         if MutexFieldIndex guard \<ge> length fs then ctx
         else report ctx (fieldPos field)
           (ExportedGuardedField (objName (named_at (prog_of ctx) (fk_StructType key))) (fieldName field)
             (fieldName (fs ! MutexFieldIndex guard))))"

definition checkExportedField :: "fieldKey \<Rightarrow> guardInfo \<Rightarrow> passContext \<Rightarrow> passContext" where
  "checkExportedField key guard ctx =
    (if obj_pkg (prog_of ctx) (fk_StructType key) \<noteq> Some (passPkg (pass ctx)) then ctx
     else case as_struct (Underlying (prog_of ctx) (Named (fk_StructType key))) of
         None \<Rightarrow> ctx
       | Some fs \<Rightarrow>
           if fk_FieldIndex key \<ge> length fs then ctx
           else let field = fs ! fk_FieldIndex key in
                if \<not> fieldExported field then ctx
                else reportExportedGuardedField ctx key guard field)"

definition checkExportedGuardedFields :: "passContext \<Rightarrow> passContext" where
  "checkExportedGuardedFields ctx =
    fold (\<lambda>key ctx'. case gm_get (guards ctx) key of
        None \<Rightarrow> ctx' | Some guard \<Rightarrow> checkExportedField key guard ctx')
      (shuffle (rangeOrder (pass ctx) ''checkExportedGuardedFields'' 0) (gm_keys (guards ctx))) ctx"

section \<open>Violations at call sites\<close>

definition tab :: string where
  "tab = [char_of (9 :: nat)]"

definition at_position :: "position \<Rightarrow> string" where
  "at_position q = '' at '' @ Base (Filename q) @ '':'' @ itoa (Line q) @ '':'' @ itoa (Column q)"

definition maxDepth :: nat where
  "maxDepth = 5"

text \<open>An origin without a callee always has a field (\<open>deriveInitialRequirements\<close>).\<close>

function formatSingleOrigin ::
    "passContext \<Rightarrow> func \<Rightarrow> mutexFieldKey \<Rightarrow> requirementOrigin \<Rightarrow> nat \<Rightarrow> string list" where
  "formatSingleOrigin ctx fn mfk origin depth =
    (if depth \<ge> maxDepth then []
     else case ro_ViaCallee origin of
         Some callee \<Rightarrow>
           (let line = tab @ fnName (func_at (prog_of ctx) fn) @ ''() calls '' @
                  fnName (func_at (prog_of ctx) callee) @ ''()'' @
                  at_position (Fset (pass ctx) (ro_ViaCallPos origin))
            in line #
               (case List.find (\<lambda>ls. ls \<noteq> [])
                   (map (\<lambda>inner. formatSingleOrigin ctx callee mfk inner (Suc depth))
                     (case gm_get (funcFacts ctx) callee of
                        None \<Rightarrow> []
                      | Some calleeFacts \<Rightarrow> gm_slice (RequiresOrigin calleeFacts) mfk)) of
                  None \<Rightarrow> []
                | Some innerLines \<Rightarrow> innerLines))
       | None \<Rightarrow>
           if \<not> IsValid (ro_AccessPos origin) then []
           else (case ro_FieldKey origin of
               None \<Rightarrow> []
             | Some key \<Rightarrow>
                 (case as_struct (Underlying (prog_of ctx) (Named (fk_StructType key))) of
                    None \<Rightarrow> []
                  | Some fs \<Rightarrow>
                      if fk_FieldIndex key \<ge> length fs then []
                      else [tab @ fnName (func_at (prog_of ctx) fn) @ ''() accesses '' @
                        objName (named_at (prog_of ctx) (fk_StructType key)) @ ''.'' @
                        fieldName (fs ! fk_FieldIndex key) @
                        at_position (Fset (pass ctx) (ro_AccessPos origin))])))"
  by pat_completeness auto
termination
  by (relation "measure (\<lambda>(ctx, fn, mfk, origin, depth). maxDepth - depth)") auto

declare formatSingleOrigin.simps [simp del]

fun reason_loop ::
    "passContext \<Rightarrow> func \<Rightarrow> mutexFieldKey \<Rightarrow> nat \<Rightarrow> requirementOrigin list \<Rightarrow> nat \<Rightarrow> string list \<Rightarrow> string list" where
  "reason_loop ctx fn mfk maxChains [] nchains acc = acc"
| "reason_loop ctx fn mfk maxChains (origin # origins) nchains acc =
    (if nchains \<ge> maxChains then acc
     else let chainLines = formatSingleOrigin ctx fn mfk origin 0 in
          if chainLines = [] then reason_loop ctx fn mfk maxChains origins nchains acc
          else reason_loop ctx fn mfk maxChains origins (Suc nchains)
            ((if nchains > 0 then acc @ [''''] else acc) @ chainLines))"

definition formatRequirementReasons ::
    "passContext \<Rightarrow> func \<Rightarrow> mutexFieldKey \<Rightarrow> nat \<Rightarrow> string list" where
  "formatRequirementReasons ctx fn mfk maxChains =
    (case gm_get (funcFacts ctx) fn of
       None \<Rightarrow> []
     | Some facts \<Rightarrow> reason_loop ctx fn mfk maxChains (gm_slice (RequiresOrigin facts) mfk) 0 [])"

definition reportMissingLockAtCallSite :: "passContext \<Rightarrow> callSiteRecord \<Rightarrow> mutexFieldKey \<Rightarrow> passContext" where
  "reportMissingLockAtCallSite ctx cs mfk =
    report_key ctx (Caller cs) (csPos cs) mfk
      (\<lambda>name. MissingLockAtCallSite name (fnName (func_at (prog_of ctx) (Callee cs)))
        (if verbose ctx then formatRequirementReasons ctx (Callee cs) mfk 3 else []))"

definition reportDoubleLockAtCallSite :: "passContext \<Rightarrow> callSiteRecord \<Rightarrow> mutexFieldKey \<Rightarrow> passContext" where
  "reportDoubleLockAtCallSite ctx cs mfk =
    report_key ctx (Caller cs) (csPos cs) mfk
      (\<lambda>name. DoubleLockAtCallSite name (fnName (func_at (prog_of ctx) (Callee cs))))"

definition checkMissing :: "callSiteRecord \<Rightarrow> mutexFieldKey \<Rightarrow> passContext \<Rightarrow> passContext" where
  "checkMissing cs mfk ctx =
    (if \<not> callerHoldsMutex cs mfk then
       (if shouldSuppressDirectViolation ctx (Caller cs) mfk then ctx
        else if isPrePublicationConstructorCall (prog_of ctx) cs then ctx
        else reportMissingLockAtCallSite ctx cs mfk)
     else ctx)"

definition checkDouble :: "callSiteRecord \<Rightarrow> mutexFieldKey \<Rightarrow> passContext \<Rightarrow> passContext" where
  "checkDouble cs mfk ctx = (if callerHoldsMutex cs mfk then reportDoubleLockAtCallSite ctx cs mfk else ctx)"

definition checkCallSite :: "nat \<times> callSiteRecord \<Rightarrow> passContext \<Rightarrow> passContext" where
  "checkCallSite ics ctx =
    (case ics of (i, cs) \<Rightarrow>
       if \<not> isConcurrent ctx (Caller cs) then ctx
       else case gm_get (funcFacts ctx) (Callee cs) of
           None \<Rightarrow> ctx
         | Some calleeFacts \<Rightarrow>
             fold (checkDouble cs)
               (shuffle (rangeOrder (pass ctx) ''checkInterproceduralViolations.acquires'' i)
                 (AcquiresTransitive calleeFacts))
               (fold (checkMissing cs)
                 (shuffle (rangeOrder (pass ctx) ''checkInterproceduralViolations.requires'' i)
                   (Requires calleeFacts)) ctx))"

definition checkInterproceduralViolations :: "passContext \<Rightarrow> passContext" where
  "checkInterproceduralViolations ctx = fold checkCallSite (enumerate 0 (callSites ctx)) ctx"

section \<open>Phases that only report\<close>

text \<open>The contract of the checks below: a check changes nothing but the diagnostics, and what it adds
  does not depend on what has been reported before. The order in which a phase runs its checks then
  does not matter for the set of diagnostics.\<close>

locale reporting =
  fixes check :: "'x \<Rightarrow> passContext \<Rightarrow> passContext"
    and reports :: "passContext \<Rightarrow> 'x \<Rightarrow> (pos \<times> diagnostic) set"
  assumes check_only_reports: "only_reports ctx (check x ctx)"
    and check_reports: "set (diagnostics (check x ctx)) = set (diagnostics ctx) \<union> reports ctx x"
    and reports_same: "only_reports ctx ctx' \<Longrightarrow> reports ctx' x = reports ctx x"
begin

lemma fold_only_reports: "only_reports ctx (fold check xs ctx)"
proof (induction xs arbitrary: ctx)
  case (Cons x xs)
  show ?case using only_reports_trans [OF check_only_reports [of ctx x] Cons.IH] by simp
qed simp

lemma fold_reports:
  "set (diagnostics (fold check xs ctx)) = set (diagnostics ctx) \<union> (\<Union>x \<in> set xs. reports ctx x)"
proof (induction xs arbitrary: ctx)
  case (Cons x xs)
  have "reports (check x ctx) y = reports ctx y" for y
    by (rule reports_same [OF check_only_reports])
  then show ?case using Cons.IH [of "check x ctx"] by (auto simp: check_reports)
qed simp

lemma fold_reports_order:
  "set xs = set ys \<Longrightarrow> set (diagnostics (fold check xs ctx)) = set (diagnostics (fold check ys ctx))"
  by (simp add: fold_reports)

end

lemma reports_invariant:
  assumes "only_reports ctx ctx'"
  shows "isSuppressed ctx' fn p = isSuppressed ctx fn p"
    and "isConcurrent ctx' fn = isConcurrent ctx fn"
    and "hasCallers ctx' fn = hasCallers ctx fn"
    and "shouldSuppressDirectViolation ctx' fn mfk = shouldSuppressDirectViolation ctx fn mfk"
    and "functionRequiresMutex ctx' fn ref = functionRequiresMutex ctx fn ref"
    and "isAcquireHelperFor ctx' fn ref = isAcquireHelperFor ctx fn ref"
    and "calleeReturnsHolding ctx' fn mfk = calleeReturnsHolding ctx fn mfk"
  unfolding isSuppressed_def isConcurrent_def hasCallers_def shouldSuppressDirectViolation_def
    functionRequiresMutex_def isAcquireHelperFor_def calleeReturnsHolding_def
    only_reports_frame [OF assms] by (rule refl)+

text \<open>The diagnostics of the three kinds of report functions.\<close>

definition field_diag ::
    "passContext \<Rightarrow> observation \<Rightarrow> fieldKey \<Rightarrow> guardInfo \<Rightarrow> (string \<Rightarrow> string \<Rightarrow> string \<Rightarrow> diagnostic) \<Rightarrow>
      (pos \<times> diagnostic) set" where
  "field_diag ctx obs key guard d =
    {pd. \<not> isSuppressed ctx (obsFunc obs) (obsPos obs) \<and>
      (\<exists>fs. Underlying (prog_of ctx) (Named (fk_StructType key)) = Struct fs \<and>
        fk_FieldIndex key < length fs \<and> MutexFieldIndex guard < length fs \<and>
        pd = (obsPos obs, d (objName (named_at (prog_of ctx) (fk_StructType key)))
          (fieldName (fs ! fk_FieldIndex key)) (fieldName (fs ! MutexFieldIndex guard))))}"

definition lock_diag ::
    "passContext \<Rightarrow> func \<Rightarrow> pos \<Rightarrow> lockRef \<Rightarrow> (string \<Rightarrow> diagnostic) \<Rightarrow> (pos \<times> diagnostic) set" where
  "lock_diag ctx fn p ref d =
    {pd. \<not> isSuppressed ctx fn p \<and> lockRefName (prog_of ctx) ref \<noteq> [] \<and>
      pd = (p, d (lockRefName (prog_of ctx) ref))}"

definition key_diag ::
    "passContext \<Rightarrow> func \<Rightarrow> pos \<Rightarrow> mutexFieldKey \<Rightarrow> (string \<Rightarrow> diagnostic) \<Rightarrow> (pos \<times> diagnostic) set" where
  "key_diag ctx fn p mfk d =
    {pd. \<not> isSuppressed ctx fn p \<and> mutexFieldKeyName (prog_of ctx) mfk \<noteq> [] \<and>
      pd = (p, d (mutexFieldKeyName (prog_of ctx) mfk))}"

lemma report_field_reports:
  "only_reports ctx (report_field ctx obs key guard d)"
  "set (diagnostics (report_field ctx obs key guard d)) =
    set (diagnostics ctx) \<union> field_diag ctx obs key guard d"
  by (auto simp: report_field_def field_diag_def not_le split: option.splits)

lemma report_lock_reports:
  "set (diagnostics (report_lock ctx fn p ref d)) = set (diagnostics ctx) \<union> lock_diag ctx fn p ref d"
  by (auto simp: report_lock_def lock_diag_def Let_def)

lemma report_key_reports:
  "only_reports ctx (report_key ctx fn p mfk d)"
  "set (diagnostics (report_key ctx fn p mfk d)) = set (diagnostics ctx) \<union> key_diag ctx fn p mfk d"
  by (auto simp: report_key_def key_diag_def Let_def)

lemma diag_invariant:
  assumes "only_reports ctx ctx'"
  shows "field_diag ctx' obs key guard d = field_diag ctx obs key guard d"
    and "lock_diag ctx' fn p ref e = lock_diag ctx fn p ref e"
    and "key_diag ctx' fn p mfk e = key_diag ctx fn p mfk e"
  by (simp_all add: field_diag_def lock_diag_def key_diag_def reports_invariant [OF assms]
      only_reports_frame [OF assms])

section \<open>Direct violations, specified\<close>

definition guard_held :: "guardInfo \<Rightarrow> observation \<Rightarrow> bool" where
  "guard_held guard obs \<longleftrightarrow> MutexFieldIndex guard \<in> hmf_FieldIndex ` set (SameBaseMutexFields obs)"

definition guard_shared :: "guardInfo \<Rightarrow> observation \<Rightarrow> bool" where
  "guard_shared guard obs \<longleftrightarrow>
    (\<exists>hmf. List.find (\<lambda>h. hmf_FieldIndex h = MutexFieldIndex guard) (SameBaseMutexFields obs) = Some hmf \<and>
      \<not> hmf_Exclusive hmf)"

definition violations :: "passContext \<Rightarrow> fieldKey \<times> guardInfo \<times> observation \<Rightarrow> (pos \<times> diagnostic) set" where
  "violations ctx kgo = (case kgo of (key, guard, obs) \<Rightarrow>
    {pd. \<not> isConstructorLike (prog_of ctx) (obsFunc obs) (fk_StructType key) \<and> isConcurrent ctx (obsFunc obs) \<and>
      (guard_shared guard obs \<and> \<not> IsRead obs \<and> pd \<in> field_diag ctx obs key guard WriteUnderSharedLock \<or>
       \<not> guard_held guard obs \<and>
         \<not> shouldSuppressDirectViolation ctx (obsFunc obs) (guard_key key guard) \<and>
         pd \<in> field_diag ctx obs key guard Violation)})"

lemma guard_held_find:
  "guard_held guard obs \<longleftrightarrow>
    List.find (\<lambda>h. hmf_FieldIndex h = MutexFieldIndex guard) (SameBaseMutexFields obs) \<noteq> None"
  by (force simp: guard_held_def find_None_iff)

lemma checkObservation_cases:
  "checkObservation key guard obs ctx =
    (if isConstructorLike (prog_of ctx) (obsFunc obs) (fk_StructType key) then ctx
     else if guard_shared guard obs \<and> \<not> IsRead obs then
       (if isConcurrent ctx (obsFunc obs) then reportWriteUnderSharedLock ctx obs key guard else ctx)
     else if \<not> guard_held guard obs \<and> isConcurrent ctx (obsFunc obs) \<and>
       \<not> shouldSuppressDirectViolation ctx (obsFunc obs) (guard_key key guard)
       then reportViolation ctx obs key guard
     else ctx)"
  unfolding checkObservation_def guard_held_find guard_shared_def guard_key_def Let_def
  by (cases "List.find (\<lambda>h. hmf_FieldIndex h = MutexFieldIndex guard) (SameBaseMutexFields obs)") auto

lemma guard_shared_held: "guard_shared guard obs \<Longrightarrow> guard_held guard obs"
  by (auto simp: guard_shared_def guard_held_find)

interpretation direct: reporting "\<lambda>(key, guard, obs). checkObservation key guard obs" violations
proof
  fix ctx ctx' :: passContext and x :: "fieldKey \<times> guardInfo \<times> observation"
  obtain key guard obs where x: "x = (key, guard, obs)" using prod_cases3 by blast
  show "only_reports ctx ((case x of (key, guard, obs) \<Rightarrow> checkObservation key guard obs) ctx)"
    by (simp add: x checkObservation_cases reportWriteUnderSharedLock_def reportViolation_def
        report_field_reports(1))
  show "set (diagnostics ((case x of (key, guard, obs) \<Rightarrow> checkObservation key guard obs) ctx)) =
      set (diagnostics ctx) \<union> violations ctx x"
    using guard_shared_held [of guard obs]
    by (auto simp: x checkObservation_cases violations_def reportWriteUnderSharedLock_def
        reportViolation_def report_field_reports(2))
  assume "only_reports ctx ctx'"
  then show "violations ctx' x = violations ctx x"
    by (simp add: x violations_def reports_invariant diag_invariant only_reports_frame)
qed

text \<open>Every guarded observation of the package, with its guard.\<close>

definition guarded_obs :: "passContext \<Rightarrow> (fieldKey \<times> guardInfo \<times> observation) set" where
  "guarded_obs ctx = {(key, guard, obs). gm_get (guards ctx) key = Some guard \<and>
    obs \<in> set (gm_slice (observations ctx) key)}"

lemma checkViolations_reports:
  "only_reports ctx (checkViolations ctx)"
  "set (diagnostics (checkViolations ctx)) =
    set (diagnostics ctx) \<union> (\<Union>x \<in> guarded_obs ctx. violations ctx x)"
proof -
  let ?keys = "shuffle (rangeOrder (pass ctx) ''checkViolations'' 0) (gm_keys (guards ctx))"
  let ?items = "\<lambda>key. case gm_get (guards ctx) key of None \<Rightarrow> []
    | Some guard \<Rightarrow> map (\<lambda>obs. (key, guard, obs)) (gm_slice (observations ctx) key)"
  let ?check = "\<lambda>(key, guard, obs). checkObservation key guard obs"
  have "fold (\<lambda>key ctx'. case gm_get (guards ctx) key of None \<Rightarrow> ctx'
      | Some guard \<Rightarrow> fold (checkObservation key guard) (gm_slice (observations ctx) key) ctx') keys c =
      fold ?check (concat (map ?items keys)) c" for keys c
    by (induction keys arbitrary: c) (auto simp: fold_map comp_def split: option.splits)
  then have eq: "checkViolations ctx = fold ?check (concat (map ?items ?keys)) ctx"
    by (simp add: checkViolations_def)
  have "set (concat (map ?items ?keys)) = guarded_obs ctx"
    by (force simp: guarded_obs_def gm_keys_get split: option.splits)
  then show "only_reports ctx (checkViolations ctx)"
    "set (diagnostics (checkViolations ctx)) =
      set (diagnostics ctx) \<union> (\<Union>x \<in> guarded_obs ctx. violations ctx x)"
    unfolding eq by (simp_all add: direct.fold_only_reports direct.fold_reports)
qed

section \<open>Candidates, specified\<close>

definition leaks :: "passContext \<Rightarrow> lockLeakCandidate \<Rightarrow> (pos \<times> diagnostic) set" where
  "leaks ctx c =
    {pd. \<not> functionRequiresMutex ctx (llc_Fn c) (llc_Ref c) \<and>
      \<lparr>dlt_fn = llc_Fn c, dlt_ref = llc_Ref c\<rparr> \<notin> set (deferredLockTypoReported ctx) \<and>
      \<not> isAcquireHelperFor ctx (llc_Fn c) (llc_Ref c) \<and>
      pd \<in> lock_diag ctx (llc_Fn c) (llc_Pos c) (llc_Ref c)
        (\<lambda>name. let q = Fset (pass ctx) (llc_AcquirePos c) in
          LockLeak name (Base (Filename q)) (Line q) (Column q))}"

interpretation leak: reporting checkLeak leaks
proof
  fix ctx ctx' :: passContext and c
  show "only_reports ctx (checkLeak c ctx)" by (simp add: checkLeak_def reportLockLeak_def Let_def)
  show "set (diagnostics (checkLeak c ctx)) = set (diagnostics ctx) \<union> leaks ctx c"
    by (auto simp: checkLeak_def reportLockLeak_def leaks_def report_lock_reports Let_def)
  assume "only_reports ctx ctx'"
  then show "leaks ctx' c = leaks ctx c"
    by (simp add: leaks_def reports_invariant diag_invariant only_reports_frame)
qed

definition leak_candidates :: "passContext \<Rightarrow> lockLeakCandidate set" where
  "leak_candidates ctx = {c. \<exists>p. c \<in> set (gm_slice (lockLeakCandidates ctx) p)}"

lemma reportDeferredLockLeaks_reports:
  "only_reports ctx (reportDeferredLockLeaks ctx)"
  "set (diagnostics (reportDeferredLockLeaks ctx)) =
    set (diagnostics ctx) \<union> (\<Union>c \<in> leak_candidates ctx. leaks ctx c)"
proof -
  let ?keys = "shuffle (rangeOrder (pass ctx) ''reportDeferredLockLeaks'' 0) (gm_keys (lockLeakCandidates ctx))"
  let ?items = "gm_slice (lockLeakCandidates ctx)"
  have "fold (\<lambda>p. fold checkLeak (?items p)) ps c = fold checkLeak (concat (map ?items ps)) c" for ps c
    by (induction ps arbitrary: c) simp_all
  then have eq: "reportDeferredLockLeaks ctx = fold checkLeak (concat (map ?items ?keys)) ctx"
    by (simp add: reportDeferredLockLeaks_def)
  have "?items p \<noteq> [] \<Longrightarrow> p \<in> set (gm_keys (lockLeakCandidates ctx))" for p
    by (auto simp: gm_keys_get gm_slice_def split: option.splits)
  then have "set (concat (map ?items ?keys)) = leak_candidates ctx"
    by (force simp: leak_candidates_def)
  then show "only_reports ctx (reportDeferredLockLeaks ctx)"
    "set (diagnostics (reportDeferredLockLeaks ctx)) =
      set (diagnostics ctx) \<union> (\<Union>c \<in> leak_candidates ctx. leaks ctx c)"
    unfolding eq by (simp_all add: leak.fold_only_reports leak.fold_reports)
qed

definition bad_unlocks :: "passContext \<Rightarrow> unlockOfUnlockedCandidate \<Rightarrow> (pos \<times> diagnostic) set" where
  "bad_unlocks ctx c =
    {pd. \<not> functionRequiresMutex ctx (uuc_Fn c) (uuc_Ref c) \<and>
      (\<forall>mfk. lockRefToMutexFieldKey (prog_of ctx) (uuc_Ref c) = Some mfk \<longrightarrow>
        \<not> calleeReturnsHolding ctx (uuc_Fn c) mfk) \<and>
      pd \<in> lock_diag ctx (uuc_Fn c) (uuc_Pos c) (uuc_Ref c) UnlockOfUnlocked}"

interpretation unlocked: reporting checkUnlock bad_unlocks
proof
  fix ctx ctx' :: passContext and c
  show "only_reports ctx (checkUnlock c ctx)" by (simp add: checkUnlock_def reportUnlockOfUnlocked_def)
  show "set (diagnostics (checkUnlock c ctx)) = set (diagnostics ctx) \<union> bad_unlocks ctx c"
    by (auto simp: checkUnlock_def reportUnlockOfUnlocked_def bad_unlocks_def report_lock_reports
        split: option.splits)
  assume "only_reports ctx ctx'"
  then show "bad_unlocks ctx' c = bad_unlocks ctx c"
    by (simp add: bad_unlocks_def reports_invariant diag_invariant only_reports_frame)
qed

lemma reportDeferredUnlockOfUnlocked_reports:
  "only_reports ctx (reportDeferredUnlockOfUnlocked ctx)"
  "set (diagnostics (reportDeferredUnlockOfUnlocked ctx)) =
    set (diagnostics ctx) \<union> (\<Union>c \<in> set (unlockOfUnlockedCandidates ctx). bad_unlocks ctx c)"
  by (simp_all add: reportDeferredUnlockOfUnlocked_def unlocked.fold_only_reports unlocked.fold_reports)

section \<open>Call sites, specified\<close>

lemma formatSingleOrigin_reports:
  assumes "only_reports ctx ctx'"
  shows "formatSingleOrigin ctx' fn mfk origin depth = formatSingleOrigin ctx fn mfk origin depth"
proof (induction "maxDepth - depth" arbitrary: fn origin depth)
  case 0
  then show ?case by (simp add: formatSingleOrigin.simps)
next
  case (Suc d)
  then have inner: "formatSingleOrigin ctx' g mfk o' (Suc depth) = formatSingleOrigin ctx g mfk o' (Suc depth)"
    for g o' by simp
  show ?case
    unfolding formatSingleOrigin.simps [of _ fn mfk origin depth] only_reports_frame [OF assms] inner ..
qed

lemma formatRequirementReasons_reports:
  assumes "only_reports ctx ctx'"
  shows "formatRequirementReasons ctx' fn mfk n = formatRequirementReasons ctx fn mfk n"
proof -
  have loop: "reason_loop ctx' fn mfk n origins c acc = reason_loop ctx fn mfk n origins c acc" for origins c acc
    by (induction origins arbitrary: c acc) (simp_all add: formatSingleOrigin_reports [OF assms] Let_def)
  show ?thesis unfolding formatRequirementReasons_def only_reports_frame [OF assms] loop ..
qed

definition missing_diag :: "passContext \<Rightarrow> callSiteRecord \<Rightarrow> mutexFieldKey \<Rightarrow> (pos \<times> diagnostic) set" where
  "missing_diag ctx cs mfk = key_diag ctx (Caller cs) (csPos cs) mfk
    (\<lambda>name. MissingLockAtCallSite name (fnName (func_at (prog_of ctx) (Callee cs)))
      (if verbose ctx then formatRequirementReasons ctx (Callee cs) mfk 3 else []))"

definition double_diag :: "passContext \<Rightarrow> callSiteRecord \<Rightarrow> mutexFieldKey \<Rightarrow> (pos \<times> diagnostic) set" where
  "double_diag ctx cs mfk = key_diag ctx (Caller cs) (csPos cs) mfk
    (\<lambda>name. DoubleLockAtCallSite name (fnName (func_at (prog_of ctx) (Callee cs))))"

lemma site_diag_invariant:
  assumes "only_reports ctx ctx'"
  shows "missing_diag ctx' cs mfk = missing_diag ctx cs mfk"
    and "double_diag ctx' cs mfk = double_diag ctx cs mfk"
  by (simp_all add: missing_diag_def double_diag_def diag_invariant [OF assms]
      only_reports_frame [OF assms] formatRequirementReasons_reports [OF assms])

definition missing :: "callSiteRecord \<Rightarrow> passContext \<Rightarrow> mutexFieldKey \<Rightarrow> (pos \<times> diagnostic) set" where
  "missing cs ctx mfk =
    {pd. \<not> callerHoldsMutex cs mfk \<and> \<not> shouldSuppressDirectViolation ctx (Caller cs) mfk \<and>
      \<not> isPrePublicationConstructorCall (prog_of ctx) cs \<and> pd \<in> missing_diag ctx cs mfk}"

definition double_locks :: "callSiteRecord \<Rightarrow> passContext \<Rightarrow> mutexFieldKey \<Rightarrow> (pos \<times> diagnostic) set" where
  "double_locks cs ctx mfk = {pd. callerHoldsMutex cs mfk \<and> pd \<in> double_diag ctx cs mfk}"

interpretation miss: reporting "checkMissing cs" "missing cs" for cs
proof
  fix ctx ctx' :: passContext and mfk
  show "only_reports ctx (checkMissing cs mfk ctx)"
    by (simp add: checkMissing_def reportMissingLockAtCallSite_def report_key_reports(1))
  show "set (diagnostics (checkMissing cs mfk ctx)) = set (diagnostics ctx) \<union> missing cs ctx mfk"
    by (auto simp: checkMissing_def reportMissingLockAtCallSite_def report_key_reports(2) missing_def
        missing_diag_def)
  assume "only_reports ctx ctx'"
  then show "missing cs ctx' mfk = missing cs ctx mfk"
    by (simp add: missing_def reports_invariant site_diag_invariant only_reports_frame)
qed

interpretation doub: reporting "checkDouble cs" "double_locks cs" for cs
proof
  fix ctx ctx' :: passContext and mfk
  show "only_reports ctx (checkDouble cs mfk ctx)"
    by (simp add: checkDouble_def reportDoubleLockAtCallSite_def report_key_reports(1))
  show "set (diagnostics (checkDouble cs mfk ctx)) = set (diagnostics ctx) \<union> double_locks cs ctx mfk"
    by (auto simp: checkDouble_def reportDoubleLockAtCallSite_def report_key_reports(2) double_locks_def
        double_diag_def)
  assume "only_reports ctx ctx'"
  then show "double_locks cs ctx' mfk = double_locks cs ctx mfk"
    by (simp add: double_locks_def site_diag_invariant)
qed

definition site_reports :: "passContext \<Rightarrow> callSiteRecord \<Rightarrow> (pos \<times> diagnostic) set" where
  "site_reports ctx cs =
    {pd. isConcurrent ctx (Caller cs) \<and>
      (\<exists>mfk. Callee cs \<in> requirers ctx mfk \<and> pd \<in> missing cs ctx mfk \<or>
        Callee cs \<in> acquirers ctx mfk \<and> pd \<in> double_locks cs ctx mfk)}"

interpretation site: reporting checkCallSite "\<lambda>ctx ics. site_reports ctx (snd ics)"
proof
  fix ctx ctx' :: passContext and ics :: "nat \<times> callSiteRecord"
  obtain i cs where ics: "ics = (i, cs)" by (cases ics)
  show "only_reports ctx (checkCallSite ics ctx)"
    by (auto simp: checkCallSite_def ics split: option.splits
        intro: only_reports_trans [OF miss.fold_only_reports doub.fold_only_reports])
  show "set (diagnostics (checkCallSite ics ctx)) = set (diagnostics ctx) \<union> site_reports ctx (snd ics)"
  proof (cases "gm_get (funcFacts ctx) (Callee cs)")
    case None
    then show ?thesis
      by (auto simp: checkCallSite_def ics site_reports_def requirers_def acquirers_def factsOf_def
          newFuncLockFacts_def)
  next
    case (Some facts)
    have "double_locks cs (fold (checkMissing cs) ks ctx) m = double_locks cs ctx m" for ks m
      by (rule doub.reports_same [OF miss.fold_only_reports])
    with Some show ?thesis
      by (auto simp: checkCallSite_def ics site_reports_def requirers_def acquirers_def factsOf_def
          doub.fold_reports miss.fold_reports)
  qed
  assume same: "only_reports ctx ctx'"
  have "requirers ctx' m = requirers ctx m" "acquirers ctx' m = acquirers ctx m" for m
    by (simp_all add: requirers_def acquirers_def factsOf_def only_reports_frame [OF same])
  then show "site_reports ctx' (snd ics) = site_reports ctx (snd ics)"
    by (simp add: site_reports_def reports_invariant [OF same] miss.reports_same [OF same]
        doub.reports_same [OF same])
qed

lemma checkInterproceduralViolations_reports:
  "only_reports ctx (checkInterproceduralViolations ctx)"
  "set (diagnostics (checkInterproceduralViolations ctx)) =
    set (diagnostics ctx) \<union> (\<Union>cs \<in> set (callSites ctx). site_reports ctx cs)"
proof -
  show "only_reports ctx (checkInterproceduralViolations ctx)"
    by (simp add: checkInterproceduralViolations_def site.fold_only_reports)
  have "(\<Union>ics \<in> set (enumerate 0 (callSites ctx)). site_reports ctx (snd ics)) =
      (\<Union>cs \<in> snd ` set (enumerate 0 (callSites ctx)). site_reports ctx cs)" by simp
  then show "set (diagnostics (checkInterproceduralViolations ctx)) =
      set (diagnostics ctx) \<union> (\<Union>cs \<in> set (callSites ctx). site_reports ctx cs)"
    unfolding snd_set_enumerate by (simp add: checkInterproceduralViolations_def site.fold_reports)
qed

section \<open>The length of an explanation\<close>

lemma formatSingleOrigin_length: "length (formatSingleOrigin ctx fn mfk origin depth) \<le> maxDepth - depth"
proof (induction "maxDepth - depth" arbitrary: fn origin depth)
  case 0
  then show ?case by (simp add: formatSingleOrigin.simps)
next
  case (Suc d)
  have "length (case List.find (\<lambda>ls. ls \<noteq> []) (map (\<lambda>inner. formatSingleOrigin ctx g mfk inner (Suc depth)) os) of
      None \<Rightarrow> [] | Some ls \<Rightarrow> ls) \<le> maxDepth - Suc depth" for g os
  proof (cases "List.find (\<lambda>ls. ls \<noteq> []) (map (\<lambda>inner. formatSingleOrigin ctx g mfk inner (Suc depth)) os)")
    case (Some ls)
    then have "ls \<in> set (map (\<lambda>inner. formatSingleOrigin ctx g mfk inner (Suc depth)) os)"
      by (auto simp: find_Some_iff)
    with Suc.hyps(1) [of "Suc depth" g] Suc.hyps(2) Some show ?thesis by auto
  qed simp
  with Suc.hyps(2) show ?case
    by (subst formatSingleOrigin.simps)
      (fastforce simp: Let_def split: option.splits intro: order_trans [OF Suc_le_mono [THEN iffD2]])
qed

lemma reason_loop_length:
  "k \<le> n \<Longrightarrow> length (reason_loop ctx fn mfk n origins k acc) \<le> length acc + (n - k) * Suc maxDepth"
proof (induction origins arbitrary: k acc)
  case (Cons x xs)
  let ?c = "formatSingleOrigin ctx fn mfk x 0"
  have c: "length ?c \<le> maxDepth" using formatSingleOrigin_length [of ctx fn mfk x 0] by simp
  show ?case
  proof (cases "n \<le> k \<or> ?c = []")
    case True
    with Cons show ?thesis by (auto simp: Let_def)
  next
    case False
    let ?acc = "(if k > 0 then acc @ [''''] else acc) @ ?c"
    have "n - k = Suc (n - Suc k)" using False by (simp add: Suc_diff_Suc)
    then have "length ?acc + (n - Suc k) * Suc maxDepth \<le> length acc + (n - k) * Suc maxDepth"
      using c unfolding \<open>n - k = Suc (n - Suc k)\<close> mult_Suc by simp
    moreover have "length (reason_loop ctx fn mfk n xs (Suc k) ?acc) \<le> length ?acc + (n - Suc k) * Suc maxDepth"
      using False by (intro Cons.IH) simp
    ultimately show ?thesis using False by (simp add: Let_def)
  qed
qed simp

section \<open>Cycles and exported fields, specified\<close>

definition cycle_check :: "lockOrderCycle \<Rightarrow> passContext \<Rightarrow> passContext" where
  "cycle_check cycle ctx =
    (if list_ex (\<lambda>edge. isConcurrent ctx (edgeFn edge)) cycle then reportLockOrderCycle ctx cycle else ctx)"

definition cycle_reports :: "passContext \<Rightarrow> lockOrderCycle \<Rightarrow> (pos \<times> diagnostic) set" where
  "cycle_reports ctx cycle =
    {pd. (\<exists>e \<in> set cycle. isConcurrent ctx (edgeFn e)) \<and>
      \<not> isSuppressed ctx (edgeFn (hd cycle)) (edgePos (hd cycle)) \<and>
      fst pd = edgePos (hd cycle) \<and>
      (case cycle_names (prog_of ctx) cycle of
         [] \<Rightarrow> False
       | [n] \<Rightarrow> snd pd = CycleOn n
       | n # m # _ \<Rightarrow> snd pd = CycleBetween n m)}"

interpretation cyc: reporting cycle_check cycle_reports
proof
  fix ctx ctx' :: passContext and cycle :: lockOrderCycle
  show "only_reports ctx (cycle_check cycle ctx)"
    by (simp add: cycle_check_def reportLockOrderCycle_def split: list.splits)
  show "set (diagnostics (cycle_check cycle ctx)) = set (diagnostics ctx) \<union> cycle_reports ctx cycle"
    by (cases cycle)
      (auto simp: cycle_check_def reportLockOrderCycle_def cycle_reports_def list_ex_iff prod_eq_iff
        split: list.splits)
  assume "only_reports ctx ctx'"
  then show "cycle_reports ctx' cycle = cycle_reports ctx cycle"
    by (simp add: cycle_reports_def reports_invariant only_reports_frame)
qed

definition found_cycles :: "passContext \<Rightarrow> lockOrderCycle list" where
  "found_cycles ctx =
    detectCycles (prog_of ctx) (\<lambda>key. rangeOrder (pass ctx) ''detectCycles.edges''
          (choice2 (mfk_StructType key) (mfk_FieldIndex key)))
      (rangeOrder (pass ctx) ''detectCycles'' 0) (orderGraph ctx)"

lemma detectAndReportLockOrderCycles_reports:
  "only_reports ctx (detectAndReportLockOrderCycles ctx)"
  "set (diagnostics (detectAndReportLockOrderCycles ctx)) =
    set (diagnostics ctx) \<union> (\<Union>cycle \<in> set (found_cycles ctx). cycle_reports ctx cycle)"
proof -
  have "detectAndReportLockOrderCycles ctx = fold cycle_check (found_cycles ctx) ctx"
    unfolding detectAndReportLockOrderCycles_def found_cycles_def cycle_check_def [abs_def] ..
  then show "only_reports ctx (detectAndReportLockOrderCycles ctx)"
    "set (diagnostics (detectAndReportLockOrderCycles ctx)) =
      set (diagnostics ctx) \<union> (\<Union>cycle \<in> set (found_cycles ctx). cycle_reports ctx cycle)"
    by (simp_all add: cyc.fold_only_reports cyc.fold_reports)
qed

lemma cycle_names_set: "set (cycle_names P cycle) = (\<lambda>e. mutexFieldKeyName P (edgeFrom e)) ` set cycle - {[]}"
proof -
  have "set (fold (\<lambda>e names. let fromName = mutexFieldKeyName P (edgeFrom e) in
        if fromName \<noteq> '''' then set_add names fromName else names) es ns) =
      set ns \<union> ((\<lambda>e. mutexFieldKeyName P (edgeFrom e)) ` set es - {[]})"
    for es :: "lockOrderEdge list" and ns
    by (induction es arbitrary: ns) (auto simp: Let_def)
  then show ?thesis by (simp add: cycle_names_def)
qed

text \<open>A cycle with a named mutex is reported, unless it is suppressed or nothing in it is concurrent.\<close>

lemma cycle_reports_nonempty:
  assumes "e \<in> set cycle" "isConcurrent ctx (edgeFn e)"
    and "\<not> isSuppressed ctx (edgeFn (hd cycle)) (edgePos (hd cycle))"
    and "e' \<in> set cycle" "mutexFieldKeyName (prog_of ctx) (edgeFrom e') \<noteq> []"
  shows "cycle_reports ctx cycle \<noteq> {}"
proof -
  have "cycle_names (prog_of ctx) cycle \<noteq> []"
    using assms(4, 5) cycle_names_set [of "prog_of ctx" cycle] by force
  then show ?thesis
    using assms(1-3) by (cases "cycle_names (prog_of ctx) cycle"; cases "tl (cycle_names (prog_of ctx) cycle)")
      (auto simp: cycle_reports_def)
qed

definition exported_reports :: "passContext \<Rightarrow> fieldKey \<times> guardInfo \<Rightarrow> (pos \<times> diagnostic) set" where
  "exported_reports ctx kg = (case kg of (key, guard) \<Rightarrow>
    {pd. obj_pkg (prog_of ctx) (fk_StructType key) = Some (passPkg (pass ctx)) \<and>
      (\<exists>fs. Underlying (prog_of ctx) (Named (fk_StructType key)) = Struct fs \<and>
        fk_FieldIndex key < length fs \<and> MutexFieldIndex guard < length fs \<and>
        fieldExported (fs ! fk_FieldIndex key) \<and>
        pd = (fieldPos (fs ! fk_FieldIndex key),
          ExportedGuardedField (objName (named_at (prog_of ctx) (fk_StructType key)))
            (fieldName (fs ! fk_FieldIndex key)) (fieldName (fs ! MutexFieldIndex guard))))})"

interpretation expo: reporting "\<lambda>(key, guard). checkExportedField key guard" exported_reports
proof
  fix ctx ctx' :: passContext and kg :: "fieldKey \<times> guardInfo"
  obtain key guard where kg: "kg = (key, guard)" by (cases kg)
  show "only_reports ctx ((case kg of (key, guard) \<Rightarrow> checkExportedField key guard) ctx)"
    by (simp add: kg checkExportedField_def reportExportedGuardedField_def Let_def split: option.splits)
  show "set (diagnostics ((case kg of (key, guard) \<Rightarrow> checkExportedField key guard) ctx)) =
      set (diagnostics ctx) \<union> exported_reports ctx kg"
    by (auto simp: kg checkExportedField_def reportExportedGuardedField_def exported_reports_def Let_def
        not_le split: option.splits)
  assume "only_reports ctx ctx'"
  then show "exported_reports ctx' kg = exported_reports ctx kg"
    by (simp add: kg exported_reports_def only_reports_frame)
qed

lemma checkExportedGuardedFields_reports:
  "only_reports ctx (checkExportedGuardedFields ctx)"
  "set (diagnostics (checkExportedGuardedFields ctx)) = set (diagnostics ctx) \<union>
    (\<Union>kg \<in> {(key, guard). gm_get (guards ctx) key = Some guard}. exported_reports ctx kg)"
proof -
  let ?keys = "shuffle (rangeOrder (pass ctx) ''checkExportedGuardedFields'' 0) (gm_keys (guards ctx))"
  let ?items = "\<lambda>key. case gm_get (guards ctx) key of None \<Rightarrow> [] | Some guard \<Rightarrow> [(key, guard)]"
  let ?check = "\<lambda>(key, guard). checkExportedField key guard"
  have "fold (\<lambda>key ctx'. case gm_get (guards ctx) key of None \<Rightarrow> ctx'
      | Some guard \<Rightarrow> checkExportedField key guard ctx') keys c = fold ?check (concat (map ?items keys)) c" for keys c
    by (induction keys arbitrary: c) (auto split: option.splits)
  then have eq: "checkExportedGuardedFields ctx = fold ?check (concat (map ?items ?keys)) ctx"
    by (simp add: checkExportedGuardedFields_def)
  have "set (concat (map ?items ?keys)) = {(key, guard). gm_get (guards ctx) key = Some guard}"
    by (force simp: gm_keys_get split: option.splits)
  then show "only_reports ctx (checkExportedGuardedFields ctx)"
    "set (diagnostics (checkExportedGuardedFields ctx)) = set (diagnostics ctx) \<union>
      (\<Union>kg \<in> {(key, guard). gm_get (guards ctx) key = Some guard}. exported_reports ctx kg)"
    unfolding eq by (simp_all add: expo.fold_only_reports expo.fold_reports)
qed

end
