(* ===== verification/Annotations.thy ===== *)
theory Annotations
  imports Pass_Context
begin

text \<open>
  \<open>pkg/analyzer/annotations.go\<close>: the comment directives \<open>//mu:concurrent\<close>, \<open>//mu:ignore\<close> and
  \<open>//mu:nolint\<close>. \<open>parseComment\<close> is the body of the innermost loop of \<open>parseAnnotations\<close>; the sets of
  functions and lines are lists without repetition. \<open>isSuppressed\<close>, which reads them, is in
  \<open>Pass_Context\<close>. The lemmas say which functions and lines are suppressed after parsing, from the
  comments alone.
\<close>

section \<open>Operations\<close>

definition astFuncToSSA :: "passContext \<Rightarrow> func_decl \<Rightarrow> func option" where
  "astFuncToSSA ctx fd =
    List.find (\<lambda>fn. fnPos (func_at (prog_of ctx) fn) = fdNamePos fd) (srcFuncs ctx)"

definition commentFor :: "(pos \<Rightarrow> position) \<Rightarrow> pos \<Rightarrow> func_decl \<Rightarrow> bool" where
  "commentFor fset commentPos fd =
    (let commentLine = Line (fset commentPos); fdLine = Line (fset (fdPos fd)) in
     (fdLine \<ge> commentLine \<and> fdLine \<le> commentLine + 1) \<or>
     (case fdBodyEnd fd of None \<Rightarrow> False
      | Some bodyEnd \<Rightarrow> commentPos \<ge> fdPos fd \<and> commentPos \<le> bodyEnd))"

definition findFuncForComment ::
    "passContext \<Rightarrow> (pos \<Rightarrow> position) \<Rightarrow> func_decl list \<Rightarrow> pos \<Rightarrow> func option" where
  "findFuncForComment ctx fset funcDecls commentPos =
    (case List.find (commentFor fset commentPos) funcDecls of
       None \<Rightarrow> None
     | Some best \<Rightarrow> astFuncToSSA ctx best)"

definition directive :: "string \<Rightarrow> string \<Rightarrow> bool" where
  "directive name text = (text = name \<or> HasPrefix text (name @ '' ''))"

definition comment_text :: "string \<Rightarrow> string" where
  "comment_text raw = TrimSpace (TrimPrefix raw ''//'')"

definition add_some :: "'a list \<Rightarrow> 'a option \<Rightarrow> 'a list" where
  "add_some xs x = (case x of None \<Rightarrow> xs | Some y \<Rightarrow> set_add xs y)"

definition parseComment ::
    "passContext \<Rightarrow> func_decl list \<Rightarrow> pos \<times> string \<Rightarrow> annotations \<Rightarrow> annotations" where
  "parseComment ctx funcDecls c ann =
    (let fset = Fset (pass ctx); text = comment_text (snd c) in
     if directive ''mu:concurrent'' text then
       ann\<lparr>concurrent := add_some (concurrent ann) (findFuncForComment ctx fset funcDecls (fst c))\<rparr>
     else if directive ''mu:ignore'' text then
       ann\<lparr>ignored := add_some (ignored ann) (findFuncForComment ctx fset funcDecls (fst c))\<rparr>
     else if directive ''mu:nolint'' text then
       (let p = fset (fst c); filename = Filename p; suppressedLine = Line p + 1 in
        ann\<lparr>nolint := gm_put (nolint ann) filename
          (set_add (gm_slice (nolint ann) filename) suppressedLine)\<rparr>)
     else ann)"

definition func_decls :: "ast_file \<Rightarrow> func_decl list" where
  "func_decls file = concat (map (\<lambda>d. case d of FuncDecl fd \<Rightarrow> [fd] | OtherDecl \<Rightarrow> []) (Decls file))"

definition newAnnotations :: annotations where
  "newAnnotations = \<lparr>concurrent = [], ignored = [], nolint = []\<rparr>"

definition parseAnnotations :: "passContext \<Rightarrow> passContext" where
  "parseAnnotations ctx =
    ctx\<lparr>annos := Some
      (fold (\<lambda>file. fold (fold (parseComment ctx (func_decls file))) (Comments file))
        (Files (pass ctx)) newAnnotations)\<rparr>"

section \<open>What parsing records\<close>

text \<open>The comments of the package, each with the function declarations of its file.\<close>

definition file_comments :: "passContext \<Rightarrow> (func_decl list \<times> pos \<times> string) list" where
  "file_comments ctx =
    concat (map (\<lambda>file. map (Pair (func_decls file)) (concat (Comments file))) (Files (pass ctx)))"

lemma fold_concat: "fold f (concat xss) s = fold (fold f) xss s"
  by (induction xss arbitrary: s) simp_all

lemma fold_fold_comments:
  "fold (\<lambda>file. fold (fold (parseComment ctx (func_decls file))) (Comments file)) files ann =
    fold (\<lambda>(fds, c). parseComment ctx fds c)
      (concat (map (\<lambda>file. map (Pair (func_decls file)) (concat (Comments file))) files)) ann"
  by (induction files arbitrary: ann) (simp_all add: fold_map comp_def flip: fold_concat)

lemma parseAnnotations_comments:
  "parseAnnotations ctx = ctx\<lparr>annos := Some
    (fold (\<lambda>(fds, c). parseComment ctx fds c) (file_comments ctx) newAnnotations)\<rparr>"
  by (simp add: parseAnnotations_def fold_fold_comments file_comments_def)

lemma directive_prefix: "directive name text \<Longrightarrow> prefix name text"
  by (auto simp: directive_def HasPrefix_def prefix_def)

text \<open>No comment is two directives, so the order of the cases does not matter.\<close>

lemma directive_exclusive:
  "\<not> (directive ''mu:concurrent'' text \<and> directive ''mu:ignore'' text)"
  "\<not> (directive ''mu:concurrent'' text \<and> directive ''mu:nolint'' text)"
  "\<not> (directive ''mu:ignore'' text \<and> directive ''mu:nolint'' text)"
  by (auto dest!: directive_prefix simp: prefix_def)

definition annotates :: "passContext \<Rightarrow> string \<Rightarrow> func \<Rightarrow> bool" where
  "annotates ctx name fn \<longleftrightarrow>
    (\<exists>(fds, p, raw) \<in> set (file_comments ctx). directive name (comment_text raw) \<and>
      findFuncForComment ctx (Fset (pass ctx)) fds p = Some fn)"

definition suppresses_line :: "passContext \<Rightarrow> string \<Rightarrow> nat \<Rightarrow> bool" where
  "suppresses_line ctx file line \<longleftrightarrow>
    (\<exists>(fds, p, raw) \<in> set (file_comments ctx). directive ''mu:nolint'' (comment_text raw) \<and>
      Filename (Fset (pass ctx) p) = file \<and> line = Line (Fset (pass ctx) p) + 1)"

lemma set_add_some [simp]: "x \<in> set (add_some xs y) \<longleftrightarrow> x \<in> set xs \<or> y = Some x"
  by (auto simp: add_some_def split: option.splits)

lemma parseComment_sets:
  "fn \<in> set (concurrent (parseComment ctx fds c ann)) \<longleftrightarrow> fn \<in> set (concurrent ann) \<or>
    directive ''mu:concurrent'' (comment_text (snd c)) \<and>
    findFuncForComment ctx (Fset (pass ctx)) fds (fst c) = Some fn"
  "fn \<in> set (ignored (parseComment ctx fds c ann)) \<longleftrightarrow> fn \<in> set (ignored ann) \<or>
    directive ''mu:ignore'' (comment_text (snd c)) \<and>
    findFuncForComment ctx (Fset (pass ctx)) fds (fst c) = Some fn"
  "l \<in> set (gm_slice (nolint (parseComment ctx fds c ann)) file) \<longleftrightarrow>
    l \<in> set (gm_slice (nolint ann) file) \<or>
    directive ''mu:nolint'' (comment_text (snd c)) \<and>
    Filename (Fset (pass ctx) (fst c)) = file \<and> l = Line (Fset (pass ctx) (fst c)) + 1"
  using directive_exclusive [of "comment_text (snd c)"]
  by (auto simp: parseComment_def Let_def gm_slice_def)

lemma parseAnnotations_sets:
  assumes "annos (parseAnnotations ctx) = Some a"
  shows "fn \<in> set (concurrent a) \<longleftrightarrow> annotates ctx ''mu:concurrent'' fn"
    and "fn \<in> set (ignored a) \<longleftrightarrow> annotates ctx ''mu:ignore'' fn"
    and "l \<in> set (gm_slice (nolint a) file) \<longleftrightarrow> suppresses_line ctx file l"
proof -
  let ?f = "\<lambda>cs ann. fold (\<lambda>(fds, c). parseComment ctx fds c) cs ann"
  have c: "fn \<in> set (concurrent (?f cs ann)) \<longleftrightarrow> fn \<in> set (concurrent ann) \<or>
      (\<exists>(fds, p, raw) \<in> set cs. directive ''mu:concurrent'' (comment_text raw) \<and>
        findFuncForComment ctx (Fset (pass ctx)) fds p = Some fn)" for cs ann
    by (induction cs arbitrary: ann) (auto simp: parseComment_sets)
  have i: "fn \<in> set (ignored (?f cs ann)) \<longleftrightarrow> fn \<in> set (ignored ann) \<or>
      (\<exists>(fds, p, raw) \<in> set cs. directive ''mu:ignore'' (comment_text raw) \<and>
        findFuncForComment ctx (Fset (pass ctx)) fds p = Some fn)" for cs ann
    by (induction cs arbitrary: ann) (auto simp: parseComment_sets)
  have n: "l \<in> set (gm_slice (nolint (?f cs ann)) file) \<longleftrightarrow> l \<in> set (gm_slice (nolint ann) file) \<or>
      (\<exists>(fds, p, raw) \<in> set cs. directive ''mu:nolint'' (comment_text raw) \<and>
        Filename (Fset (pass ctx) p) = file \<and> l = Line (Fset (pass ctx) p) + 1)" for cs ann
    by (induction cs arbitrary: ann) (auto simp: parseComment_sets)
  have a: "a = ?f (file_comments ctx) newAnnotations"
    using assms by (simp add: parseAnnotations_comments)
  show "fn \<in> set (concurrent a) \<longleftrightarrow> annotates ctx ''mu:concurrent'' fn"
    "fn \<in> set (ignored a) \<longleftrightarrow> annotates ctx ''mu:ignore'' fn"
    "l \<in> set (gm_slice (nolint a) file) \<longleftrightarrow> suppresses_line ctx file l"
    unfolding a c i n annotates_def suppresses_line_def
    by (simp_all add: newAnnotations_def gm_slice_def)
qed

text \<open>Suppression after parsing, from the comments: the function carries \<open>//mu:ignore\<close>, or the line
  before the position carries \<open>//mu:nolint\<close>.\<close>

lemma isSuppressed_parsed:
  "isSuppressed (parseAnnotations ctx) fn p \<longleftrightarrow>
    annotates ctx ''mu:ignore'' fn \<or>
    (IsValid p \<and> suppresses_line ctx (Filename (Fset (pass ctx) p)) (Line (Fset (pass ctx) p)))"
proof -
  obtain a where a: "annos (parseAnnotations ctx) = Some a" by (simp add: parseAnnotations_def)
  have "pass (parseAnnotations ctx) = pass ctx" by (simp add: parseAnnotations_def)
  moreover have "(case gm_get (nolint a) fname of None \<Rightarrow> False | Some lines \<Rightarrow> l \<in> set lines) \<longleftrightarrow>
      l \<in> set (gm_slice (nolint a) fname)" for fname l
    by (auto simp: gm_slice_def split: option.splits)
  ultimately show ?thesis
    using parseAnnotations_sets [OF a] by (auto simp: isSuppressed_def a Let_def)
qed

lemma parseAnnotations_frame [simp]:
  "pass (parseAnnotations ctx) = pass ctx"
  "srcFuncs (parseAnnotations ctx) = srcFuncs ctx"
  "diagnostics (parseAnnotations ctx) = diagnostics ctx"
  "funcFacts (parseAnnotations ctx) = funcFacts ctx"
  "callSites (parseAnnotations ctx) = callSites ctx"
  by (simp_all add: parseAnnotations_def)

end
