(* ===== verification/Walk_Sound.thy ===== *)
theory Walk_Sound
  imports Ssa_Walk
begin

text \<open>
  What the lock states of the walk in \<open>pkg/analyzer/ssawalk.go\<close> mean. The locale \<open>must_flow\<close> is the
  argument of a forward analysis: states compared by what they claim, monotone block transfers, and
  a solution that is stable along every edge. It is interpreted on the lock states
  and blocks of the model.

  The walk returns on every function without loops, whatever it locks, and on every function in which
  each block is entered with the same locks on all paths; for the latter the entry states are exact.
\<close>

section \<open>Must analysis\<close>

inductive flow_path :: "('b \<Rightarrow> 's \<Rightarrow> 's) \<Rightarrow> ('b \<Rightarrow> 'b set) \<Rightarrow> 'b \<Rightarrow> 's \<Rightarrow> 'b \<Rightarrow> 's \<Rightarrow> bool"
  for xfer succs entry start where
  path_start: "flow_path xfer succs entry start entry start"
| path_step: "flow_path xfer succs entry start b s \<Longrightarrow> b' \<in> succs b \<Longrightarrow>
    flow_path xfer succs entry start b' (xfer b s)"

locale must_flow =
  fixes le :: "'s \<Rightarrow> 's \<Rightarrow> bool"
    and xfer :: "'b \<Rightarrow> 's \<Rightarrow> 's"
  assumes le_refl: "le s s"
    and le_trans: "le s t \<Longrightarrow> le t u \<Longrightarrow> le s u"
    and xfer_mono: "le s t \<Longrightarrow> le (xfer b s) (xfer b t)"
begin

lemma stable_sound:
  assumes entry: "\<exists>t. sol entry = Some t \<and> le t start"
    and stable: "\<And>b s b'. sol b = Some s \<Longrightarrow> b' \<in> succs b \<Longrightarrow> \<exists>t. sol b' = Some t \<and> le t (xfer b s)"
    and path: "flow_path xfer succs entry start b s"
  shows "\<exists>t. sol b = Some t \<and> le t s"
  using path
proof induction
  case path_start
  show ?case by (rule entry)
next
  case (path_step b s b')
  then obtain t where t: "sol b = Some t" "le t s" by blast
  from stable [OF t(1) path_step.hyps(2)] obtain u where "sol b' = Some u" "le u (xfer b t)" by blast
  with t(2) show ?case by (meson le_trans xfer_mono)
qed

end

section \<open>The effect of instructions on the lock state\<close>

text \<open>The lock that a call names, and whether the call acquires it.\<close>

definition call_lock :: "prog \<Rightarrow> call_common \<Rightarrow> (lockRef \<times> string) option" where
  "call_lock P common =
    (if IsInvoke common then
       (case ccMethod common of
          None \<Rightarrow> None
        | Some m \<Rightarrow> if isLockMethod m then map_option (\<lambda>r. (r, m)) (resolveLockRef P (ccValue common)) else None)
     else case StaticCallee common of
         None \<Rightarrow> None
       | Some callee \<Rightarrow>
           (case Args common of
              [] \<Rightarrow> None
            | recv # _ \<Rightarrow>
                let m = fnName (func_at P callee) in
                if isLockMethod m then
                  map_option (\<lambda>r. (r, m)) (if isMutexReceiver P recv then resolveLockRef P recv
                    else resolveEmbeddedMutexRef P recv m)
                else None))"

fun instr_state :: "prog \<Rightarrow> ssa_instr \<Rightarrow> lockState \<Rightarrow> lockState" where
  "instr_state P (ICall p common) ls =
    (case call_lock P common of
       None \<Rightarrow> ls
     | Some (r, m) \<Rightarrow> if isLockAcquire m then lock ls r (isExclusiveLock m) p else unlock ls r)"
| "instr_state P (IDefer p common) ls =
    (case resolveDeferredLockRef P common of
       (None, m) \<Rightarrow> ls
     | (Some r, m) \<Rightarrow> if isLockAcquire m then ls else deferUnlock ls r)"
| "instr_state P i ls = ls"

definition block_state :: "prog \<Rightarrow> ssa_func \<Rightarrow> nat \<Rightarrow> lockState \<Rightarrow> lockState" where
  "block_state P f b = fold (instr_state P) (Instrs (Blocks f ! b))"

text \<open>Parts of the context that instructions leave alone.\<close>

lemma record_frame [simp]:
  "pass (recordLockAcquisition ctx fn ref) = pass ctx"
  "pass (recordRelease ctx fn ref) = pass ctx"
  "pass (addEdges ctx es) = pass ctx"
  "pass (recordCallSite ctx fn callee p ls recv) = pass ctx"
  "pass (checkReturnWithHeldLocks ctx fn p ls) = pass ctx"
  "pass (addObservation ctx fn isRead p ls acc) = pass ctx"
  "pass (checkHeldAgain ctx fn p ref e ls) = pass ctx"
  "pass (checkDeferredUnlockMismatch ctx fn p common ls) = pass ctx"
  "pass (checkDeferredLockInsteadOfUnlock ctx fn p common) = pass ctx"
  by (auto simp: recordLockAcquisition_def recordRelease_def addEdges_def recordCallSite_def
      checkReturnWithHeldLocks_def addObservation_def checkHeldAgain_def Let_def
      checkDeferredUnlockMismatch_def checkDeferredLockInsteadOfUnlock_def split: option.splits prod.splits)

lemma recordAncestorObservations_pass [simp]:
  "pass (recordAncestorObservations ctx fn x isRead p ls) = pass ctx"
proof -
  have "pass (fold (\<lambda>acc ctx. addObservation ctx fn isRead p ls acc) accs c) = pass c" for accs c
    by (induction accs arbitrary: c) simp_all
  then show ?thesis by (simp add: recordAncestorObservations_def)
qed

lemma processAccess_pass [simp]: "pass (processAccess ctx fn addr isRead p ls) = pass ctx"
  by (auto simp: processAccess_def Let_def split: option.splits value_kind.splits)

lemma lockOrUnlock_result:
  "pass (fst (lockOrUnlock ctx fn p ref m ls)) = pass ctx"
  "snd (lockOrUnlock ctx fn p ref m ls) =
    (case ref of None \<Rightarrow> ls
     | Some r \<Rightarrow> if isLockAcquire m then lock ls r (isExclusiveLock m) p else unlock ls r)"
  by (auto simp: lockOrUnlock_def checkAndRecordLockAcquire_def checkAndRecordUnlock_def Let_def
      split: option.splits)

lemma processInstruction_pass [simp]: "pass (fst (processInstruction ctx fn i ls)) = pass ctx"
  by (cases i) (auto simp: processCall_def processStore_def processRead_def recordDeferredUnlock_def
      lockOrUnlock_result Let_def split: option.splits list.splits prod.splits)

lemma lockOrUnlock_pair:
  "snd (lockOrUnlock ctx fn p ref m ls) =
    (case map_option (\<lambda>r. (r, m)) ref of None \<Rightarrow> ls
     | Some (r, m) \<Rightarrow> if isLockAcquire m then lock ls r (isExclusiveLock m) p else unlock ls r)"
  by (cases ref) (simp_all add: lockOrUnlock_result)

lemma processCall_state:
  "snd (processCall ctx fn p common ls) = instr_state (prog_of ctx) (ICall p common) ls"
proof (cases "IsInvoke common")
  case True
  then show ?thesis
    by (cases "ccMethod common") (simp_all add: processCall_def call_lock_def lockOrUnlock_pair)
next
  case False
  then show ?thesis
    by (cases "StaticCallee common"; cases "Args common")
      (simp_all add: processCall_def call_lock_def lockOrUnlock_pair Let_def)
qed

lemma processInstruction_state: "snd (processInstruction ctx fn i ls) = instr_state (prog_of ctx) i ls"
proof (cases i)
  case (IDefer p common)
  then show ?thesis
    by (simp add: recordDeferredUnlock_def Let_def split: prod.splits option.splits)
qed (simp_all add: processCall_state del: instr_state.simps(1))

lemma processBlock_result:
  "pass (fst (processBlock ctx fn is ls)) = pass ctx"
  "snd (processBlock ctx fn is ls) = fold (instr_state (prog_of ctx)) is ls"
proof (induction ctx fn "is" ls rule: processBlock.induct)
  case (2 ctx fn i "is" ls)
  obtain c' l' where i: "processInstruction ctx fn i ls = (c', l')" by fastforce
  then have "pass c' = pass ctx" "l' = instr_state (prog_of ctx) i ls"
    using processInstruction_pass [of ctx fn i ls] processInstruction_state [of ctx fn i ls] by simp_all
  with 2 [OF i [symmetric]] show
    "pass (fst (processBlock ctx fn (i # is) ls)) = pass ctx"
    "snd (processBlock ctx fn (i # is) ls) = fold (instr_state (prog_of ctx)) (i # is) ls"
    by (simp_all add: i)
qed simp_all

lemma ls_ok_instr_state: "ls_ok ls \<Longrightarrow> ls_ok (instr_state P i ls)"
  by (cases i) (auto split: option.splits prod.splits)

lemma ls_ok_block_state: "ls_ok ls \<Longrightarrow> ls_ok (block_state P f b ls)"
  unfolding block_state_def
  by (rule fold_invariant [where P = ls_ok and Q = "\<lambda>_. True"]) (auto intro: ls_ok_instr_state)

lemma instr_state_mono: "ls_le a b \<Longrightarrow> ls_le (instr_state P i a) (instr_state P i b)"
  by (cases i) (auto simp: ls_le_mono split: option.splits prod.splits)

lemma block_state_mono: "ls_le s t \<Longrightarrow> ls_le (block_state P f b s) (block_state P f b t)"
proof -
  have "ls_le a c \<Longrightarrow> ls_le (fold (instr_state P) is a) (fold (instr_state P) is c)" for "is" a c
    by (induction "is" arbitrary: a c) (auto intro: instr_state_mono)
  then show "ls_le s t \<Longrightarrow> ls_le (block_state P f b s) (block_state P f b t)"
    unfolding block_state_def .
qed

text \<open>Two states agree when they hold the same locks and have the same deferred unlocks; that is what
  \<open>equalHeld\<close> decides.\<close>

definition ls_eq :: "lockState \<Rightarrow> lockState \<Rightarrow> bool" where
  "ls_eq a b \<longleftrightarrow> ls_le a b \<and> ls_le b a"

interpretation must: must_flow ls_eq "block_state P f" for P f
  by unfold_locales (auto simp: ls_eq_def intro: ls_le_trans block_state_mono)

lemma ls_eq_sym: "ls_eq a b \<Longrightarrow> ls_eq b a"
  by (simp add: ls_eq_def)

lemma equalHeld_ls_eq: "ls_ok a \<Longrightarrow> ls_ok b \<Longrightarrow> equalHeld a b \<longleftrightarrow> ls_eq a b"
  by (simp add: equalHeld_iff ls_eq_def)

section \<open>The walk is the recursion of the source\<close>

lemma walkBlocks_Nil [simp]: "walkBlocks f ctx w [] = Some (ctx, w)"
  by (simp add: walkBlocks.simps)

lemma walkBlocks_Cons:
  "walkBlocks f ctx w (call # calls) =
    (case walkStep f ctx w call of (ctx', w', new) \<Rightarrow> walkBlocks f ctx' w' (new @ calls))"
  by (subst walkBlocks.simps) simp

lemma walkBlocks_induct [consumes 1, case_names Nil Cons]:
  assumes "walkBlocks f ctx w pending = Some r"
    and "\<And>ctx w. P ctx w [] (ctx, w)"
    and "\<And>ctx w call calls ctx' w' new r. walkStep f ctx w call = (ctx', w', new) \<Longrightarrow>
      walkBlocks f ctx' w' (new @ calls) = Some r \<Longrightarrow> P ctx' w' (new @ calls) r \<Longrightarrow> P ctx w (call # calls) r"
  shows "P ctx w pending r"
proof -
  have "g = f \<longrightarrow> walkBlocks g ctx w pending = Some r \<and> P ctx w pending r"
    if "walkBlocks g ctx w pending = Some r" for g ctx w pending r
    using that
  proof (rule walkBlocks.raw_induct [rotated])
    fix rec g ctx w pending r
    assume IH: "\<And>g ctx w pending r. rec g ctx w pending = Some r \<Longrightarrow>
        g = f \<longrightarrow> walkBlocks g ctx w pending = Some r \<and> P ctx w pending r"
      and eq: "(if pending = [] then Some (ctx, w)
        else case walkStep g ctx w (hd pending) of (ctx', w', new) \<Rightarrow> rec g ctx' w' (new @ tl pending)) = Some r"
    show "g = f \<longrightarrow> walkBlocks g ctx w pending = Some r \<and> P ctx w pending r"
    proof (cases pending)
      case Nil
      with eq assms(2) show ?thesis by auto
    next
      case (Cons call calls)
      obtain ctx' w' new where st: "walkStep g ctx w call = (ctx', w', new)" using prod_cases3 by blast
      with eq Cons have "rec g ctx' w' (new @ calls) = Some r" by simp
      from IH [OF this] have "g = f \<longrightarrow> walkBlocks f ctx' w' (new @ calls) = Some r \<and> P ctx' w' (new @ calls) r"
        by simp
      then show ?thesis using assms(3) [of ctx w call ctx' w' new calls r] st
        unfolding Cons by (auto simp: walkBlocks_Cons)
    qed
  qed
  with assms(1) show ?thesis by blast
qed

lemma walkBlocks_append:
  "walkBlocks f ctx w (xs @ ys) =
    Option.bind (walkBlocks f ctx w xs) (\<lambda>(ctx', w'). walkBlocks f ctx' w' ys)"
proof -
  have forward: "walkBlocks f ctx w (xs @ ys) = walkBlocks f (fst r) (snd r) ys"
    if "walkBlocks f ctx w xs = Some r" for r
    using that by (induction rule: walkBlocks_induct) (simp_all add: walkBlocks_Cons)
  have "zs = xs @ ys \<Longrightarrow> walkBlocks f ctx w xs \<noteq> None" if "walkBlocks f ctx w zs = Some r" for zs r
    using that
  proof (induction arbitrary: xs rule: walkBlocks_induct)
    case (Cons ctx w call calls ctx' w' new r)
    then show ?case by (cases xs) (auto simp: walkBlocks_Cons)
  qed simp
  then have "walkBlocks f ctx w xs = None \<Longrightarrow> walkBlocks f ctx w (xs @ ys) = None"
    by (metis not_Some_eq)
  with forward show ?thesis by (cases "walkBlocks f ctx w xs") (auto split: prod.splits)
qed

lemma walkBlocks_fold:
  "walkBlocks f ctx w calls =
    fold (\<lambda>(b, frm, ls) r. Option.bind r (\<lambda>(ctx, w). walkBlock f ctx w b frm ls)) calls (Some (ctx, w))"
proof -
  let ?f = "\<lambda>(b, frm, ls) r. Option.bind r (\<lambda>(ctx, w). walkBlock f ctx w b frm ls)"
  have none: "fold ?f calls None = None" for calls by (induction calls) auto
  show ?thesis
  proof (induction calls arbitrary: ctx w)
    case (Cons call calls)
    obtain b frm ls where call: "call = (b, frm, ls)" using prod_cases3 by blast
    have "walkBlocks f ctx w (call # calls) =
        Option.bind (walkBlock f ctx w b frm ls) (\<lambda>(ctx', w'). walkBlocks f ctx' w' calls)"
      using walkBlocks_append [of f ctx w "[call]" calls] by (simp add: walkBlock_def call)
    then show ?case
      unfolding Cons.IH by (cases "walkBlock f ctx w b frm ls") (simp_all add: call none split: prod.splits)
  qed simp
qed

lemma walkBlock_calls:
  assumes "b < length (Blocks f)"
  shows "walkBlock f ctx w b frm ls =
    (case enterBlock f ctx w b frm ls of
       (ctx1, w1, None) \<Rightarrow> Some (ctx1, w1)
     | (ctx1, w1, Some ls1) \<Rightarrow>
         (case processBlock ctx1 (wc_fn w1) (Instrs (Blocks f ! b)) ls1 of
            (ctx2, ls2) \<Rightarrow>
              fold (\<lambda>succ r. Option.bind r (\<lambda>(ctx, w). walkBlock f ctx w succ (Some b) (fork ls2)))
                (Succs (Blocks f ! b))
                (Some (ctx2, (storeEntry w w1 b ls2)\<lparr>exitStates := gm_put (exitStates w1) b (fork ls2)\<rparr>))))"
proof -
  have "walkBlocks f ctx w (map (\<lambda>succ. (succ, Some b, l)) ss) =
      fold (\<lambda>succ r. Option.bind r (\<lambda>(ctx, w). walkBlock f ctx w succ (Some b) l)) ss (Some (ctx, w))" for ctx w l ss
    unfolding walkBlocks_fold fold_map by (simp add: comp_def)
  then show ?thesis
    using assms unfolding walkBlock_def [of f ctx w b frm ls] walkBlocks_Cons
    by (auto simp: walkStep_def split: prod.splits option.splits)
qed

section \<open>Functions without loops\<close>

definition cfg :: "ssa_func \<Rightarrow> (nat \<times> nat) set" where
  "cfg f = {(b, s). b < length (Blocks f) \<and> s \<in> set (Succs (Blocks f ! b))}"

lemma walkStep_calls:
  "walkStep f ctx w (b, frm, ls) = (ctx', w', new) \<Longrightarrow> set (map fst new) \<subseteq> cfg f `` {b}"
  by (auto simp: walkStep_def cfg_def split: if_splits prod.splits option.splits)

text \<open>A step replaces a pending call by calls further down the graph: the pending blocks get smaller in
  the multiset order.\<close>

theorem walkBlocks_returns:
  assumes "acyclic (cfg f)"
  shows "\<exists>r. walkBlocks f ctx w calls = Some r"
proof -
  have "finite (cfg f)"
  proof -
    have "cfg f = (\<Union>b < length (Blocks f). Pair b ` set (Succs (Blocks f ! b)))" by (auto simp: cfg_def)
    then show ?thesis by simp
  qed
  then have wf: "wf ((cfg f)\<inverse>)" using assms by (simp add: finite_acyclic_wf_converse)
  show ?thesis
  proof (induction "mset (map fst calls)" arbitrary: ctx w calls rule: wf_induct_rule [OF wf_mult [OF wf]])
    case 1
    show ?case
    proof (cases calls)
      case (Cons call rest)
      obtain b frm ls where call: "call = (b, frm, ls)" using prod_cases3 by blast
      obtain ctx' w' new where st: "walkStep f ctx w call = (ctx', w', new)" using prod_cases3 by blast
      have "fst ` set new \<subseteq> cfg f `` {b}" using walkStep_calls [of f ctx w b frm ls] st by (simp add: call)
      then have "(mset (map fst rest) + mset (map fst new), mset (map fst rest) + {#b#}) \<in> mult ((cfg f)\<inverse>)"
        by (intro one_step_implies_mult) auto
      then have "(mset (map fst (new @ rest)), mset (map fst calls)) \<in> mult ((cfg f)\<inverse>)"
        by (simp add: Cons call add.commute)
      from 1 [OF this] show ?thesis by (simp add: Cons walkBlocks_Cons st)
    qed simp
  qed
qed

section \<open>Functions whose paths agree\<close>

definition blocks_ok :: "ssa_func \<Rightarrow> bool" where
  "blocks_ok f \<longleftrightarrow> Blocks f \<noteq> [] \<and> (\<forall>b < length (Blocks f). \<forall>s \<in> set (Succs (Blocks f ! b)). s < length (Blocks f))"

text \<open>The paths of control flow through a function, each with the lock state it leaves.\<close>

abbreviation lock_path :: "prog \<Rightarrow> ssa_func \<Rightarrow> nat \<Rightarrow> lockState \<Rightarrow> bool" where
  "lock_path P f \<equiv> flow_path (block_state P f) (\<lambda>b. set (Succs (Blocks f ! b))) 0 newLockState"

text \<open>All paths to a block leave the same locks held.\<close>

definition paths_agree :: "prog \<Rightarrow> ssa_func \<Rightarrow> bool" where
  "paths_agree P f \<longleftrightarrow> blocks_ok f \<and>
    (\<forall>b s s'. lock_path P f b s \<longrightarrow> lock_path P f b s' \<longrightarrow> ls_eq s s')"

definition on_path :: "prog \<Rightarrow> ssa_func \<Rightarrow> nat \<Rightarrow> lockState \<Rightarrow> bool" where
  "on_path P f b ls \<longleftrightarrow> b < length (Blocks f) \<and> ls_ok ls \<and> (\<exists>s. lock_path P f b s \<and> ls_eq ls s)"

definition agree_inv :: "prog \<Rightarrow> ssa_func \<Rightarrow> walkContext \<Rightarrow> walkCall list \<Rightarrow> bool" where
  "agree_inv P f w calls \<longleftrightarrow>
    (\<forall>b st. gm_get (entryStates w) b = Some st \<longrightarrow> on_path P f b st) \<and>
    (\<forall>(b, frm, ls) \<in> set calls. on_path P f b ls) \<and>
    (\<forall>b \<in> insert 0 (\<Union>c \<in> {c. gm_get (entryStates w) c \<noteq> None}. set (Succs (Blocks f ! c))).
      gm_get (entryStates w) b \<noteq> None \<or> b \<in> fst ` set calls) \<and>
    inconsistentLockReported w = []"

lemma on_path_eq: "paths_agree P f \<Longrightarrow> on_path P f b ls \<Longrightarrow> on_path P f b st \<Longrightarrow> ls_eq ls st"
  unfolding on_path_def paths_agree_def by (meson ls_eq_sym must.le_trans)

lemma on_path_succ:
  assumes "paths_agree P f" and "on_path P f b ls" and "s \<in> set (Succs (Blocks f ! b))"
  shows "on_path P f s (block_state P f b ls)"
proof -
  from assms(2) obtain p where "lock_path P f b p" "ls_eq ls p" "b < length (Blocks f)" "ls_ok ls"
    by (auto simp: on_path_def)
  then show ?thesis
    using assms(1, 3) path_step [of "block_state P f" _ 0 newLockState b p s]
    by (auto simp: on_path_def paths_agree_def blocks_ok_def ls_ok_block_state intro: must.xfer_mono)
qed

lemma walkStep_again:
  assumes "paths_agree P f" and "on_path P f b ls" and "on_path P f b st" "gm_get (entryStates w) b = Some st"
  shows "walkStep f ctx w (b, frm, ls) = (ctx, w, [])"
proof -
  have "equalHeld ls st"
    using assms(2, 3) on_path_eq [OF assms(1-3)] by (simp add: equalHeld_ls_eq on_path_def)
  with assms show ?thesis by (simp add: walkStep_def enterBlock_def on_path_def)
qed

lemma walkStep_first:
  assumes "b < length (Blocks f)" "ls_ok ls" and "gm_get (entryStates w) b = None"
    and "walkStep f ctx w (b, frm, ls) = (ctx', w', new)"
  shows "pass ctx' = pass ctx"
    and "entryStates w' = gm_put (entryStates w) b ls"
    and "inconsistentLockReported w' = inconsistentLockReported w"
    and "new = map (\<lambda>succ. (succ, Some b, block_state (prog_of ctx) f b ls)) (Succs (Blocks f ! b))"
proof -
  obtain ctx2 ls2 where p: "processBlock ctx (wc_fn w) (Instrs (Blocks f ! b)) ls = (ctx2, ls2)" by fastforce
  then have ls2: "ls2 = block_state (prog_of ctx) f b ls" "pass ctx2 = pass ctx"
    using processBlock_result [of ctx "wc_fn w" "Instrs (Blocks f ! b)" ls] by (simp_all add: block_state_def)
  moreover have "fork ls2 = ls2" using ls2(1) assms(2) by (simp add: ls_ok_block_state)
  ultimately show "pass ctx' = pass ctx" "entryStates w' = gm_put (entryStates w) b ls"
    "inconsistentLockReported w' = inconsistentLockReported w"
    "new = map (\<lambda>succ. (succ, Some b, block_state (prog_of ctx) f b ls)) (Succs (Blocks f ! b))"
    using assms p by (auto simp: walkStep_def enterBlock_def storeEntry_def)
qed

definition unvisited :: "ssa_func \<Rightarrow> walkContext \<Rightarrow> nat" where
  "unvisited f w = card {b. b < length (Blocks f) \<and> gm_get (entryStates w) b = None}"

lemma unvisited_less:
  assumes "b < length (Blocks f)" "gm_get (entryStates w) b = None" "entryStates w' = gm_put (entryStates w) b ls"
  shows "unvisited f w' < unvisited f w"
proof -
  have "{c. c < length (Blocks f) \<and> gm_get (entryStates w') c = None}
      \<subset> {c. c < length (Blocks f) \<and> gm_get (entryStates w) c = None}"
    using assms by auto
  then show ?thesis unfolding unvisited_def by (simp add: psubset_card_mono)
qed

lemma agree_inv_first:
  assumes agree: "paths_agree P f" and inv: "agree_inv P f w ((b, frm, ls) # calls)"
    and new: "gm_get (entryStates w) b = None" and w': "entryStates w' = gm_put (entryStates w) b ls"
      "inconsistentLockReported w' = inconsistentLockReported w"
    and calls: "new = map (\<lambda>succ. (succ, Some b, block_state P f b ls)) (Succs (Blocks f ! b))"
  shows "agree_inv P f w' (new @ calls)"
proof -
  have b: "on_path P f b ls" using inv by (auto simp: agree_inv_def)
  have "\<forall>(c, frm, l) \<in> set (new @ calls). on_path P f c l"
    using inv on_path_succ [OF agree b] by (auto simp: calls agree_inv_def)
  moreover have "\<forall>c \<in> insert 0 (\<Union>d \<in> {d. gm_get (entryStates w') d \<noteq> None}. set (Succs (Blocks f ! d))).
      gm_get (entryStates w') c \<noteq> None \<or> c \<in> fst ` set (new @ calls)"
  proof
    fix c assume "c \<in> insert 0 (\<Union>d \<in> {d. gm_get (entryStates w') d \<noteq> None}. set (Succs (Blocks f ! d)))"
    then have "c \<in> insert 0 (\<Union>d \<in> {d. gm_get (entryStates w) d \<noteq> None}. set (Succs (Blocks f ! d))) \<or>
        c \<in> set (Succs (Blocks f ! b))"
      by (auto simp: w' split: if_splits)
    then show "gm_get (entryStates w') c \<noteq> None \<or> c \<in> fst ` set (new @ calls)"
    proof
      assume "c \<in> insert 0 (\<Union>d \<in> {d. gm_get (entryStates w) d \<noteq> None}. set (Succs (Blocks f ! d)))"
      then have "gm_get (entryStates w) c \<noteq> None \<or> c \<in> fst ` set ((b, frm, ls) # calls)"
        using inv unfolding agree_inv_def by blast
      then show ?thesis by (auto simp: w')
    next
      assume "c \<in> set (Succs (Blocks f ! b))"
      then show ?thesis by (force simp: calls)
    qed
  qed
  moreover have "\<forall>c st. gm_get (entryStates w') c = Some st \<longrightarrow> on_path P f c st"
    using inv b by (auto simp: w' agree_inv_def)
  ultimately show ?thesis using inv unfolding agree_inv_def by (simp add: w')
qed

lemma agree_inv_again:
  assumes inv: "agree_inv P f w ((b, frm, ls) # calls)" and old: "gm_get (entryStates w) b \<noteq> None"
  shows "agree_inv P f w calls"
proof -
  have "gm_get (entryStates w) c \<noteq> None \<or> c \<in> fst ` set calls"
    if "c \<in> insert 0 (\<Union>d \<in> {d. gm_get (entryStates w) d \<noteq> None}. set (Succs (Blocks f ! d)))" for c
  proof -
    have "gm_get (entryStates w) c \<noteq> None \<or> c \<in> fst ` set ((b, frm, ls) # calls)"
      using inv that unfolding agree_inv_def by blast
    then show ?thesis using old by auto
  qed
  moreover have "\<forall>(c, frm, l) \<in> set calls. on_path P f c l" using inv by (auto simp: agree_inv_def)
  ultimately show ?thesis using inv unfolding agree_inv_def by blast
qed

lemma walkBlocks_agree:
  "paths_agree (prog_of ctx) f \<Longrightarrow> agree_inv (prog_of ctx) f w calls \<Longrightarrow>
    \<exists>ctx' w'. walkBlocks f ctx w calls = Some (ctx', w') \<and> agree_inv (prog_of ctx) f w' []"
proof (induction "(unvisited f w, length calls)" arbitrary: ctx w calls
    rule: wf_induct_rule [OF wf_lex_prod [OF wf_less wf_less]])
  case 1
  show ?case
  proof (cases calls)
    case Nil
    with 1 show ?thesis by simp
  next
    case (Cons call rest)
    obtain b frm ls where call: "call = (b, frm, ls)" using prod_cases3 by blast
    have ls: "on_path (prog_of ctx) f b ls" using "1.prems"(2) by (auto simp: Cons call agree_inv_def)
    show ?thesis
    proof (cases "gm_get (entryStates w) b")
      case (Some st)
      then have "on_path (prog_of ctx) f b st" using "1.prems"(2) by (auto simp: agree_inv_def)
      note st = walkStep_again [OF "1.prems"(1) ls this Some, of ctx frm]
      have "agree_inv (prog_of ctx) f w rest"
        using agree_inv_again [of "prog_of ctx" f w b frm ls rest] "1.prems"(2) Some by (simp add: Cons call)
      from "1.hyps" [OF _ "1.prems"(1) this] show ?thesis by (simp add: Cons call walkBlocks_Cons st)
    next
      case None
      obtain ctx' w' new where st: "walkStep f ctx w (b, frm, ls) = (ctx', w', new)" using prod_cases3 by blast
      have b: "b < length (Blocks f)" "ls_ok ls" using ls by (auto simp: on_path_def)
      note first = walkStep_first [OF b None st]
      have "agree_inv (prog_of ctx') f w' (new @ rest)"
        using agree_inv_first [OF "1.prems"(1) _ None first(2, 3, 4)] "1.prems"(2) first(1)
        by (simp add: Cons call)
      moreover have "unvisited f w' < unvisited f w" by (rule unvisited_less [OF b(1) None first(2)])
      ultimately show ?thesis
        using "1.hyps" [of w' "new @ rest" ctx'] "1.prems"(1) first(1) by (simp add: Cons call walkBlocks_Cons st)
    qed
  qed
qed

text \<open>On a function whose paths agree the walk returns, reports no inconsistent branches, and the entry
  states are those of the paths.\<close>

theorem walk_exact:
  assumes agree: "paths_agree (prog_of ctx) f"
  obtains ctx' w where "walkBlock f ctx (newWalkContext fn) 0 None newLockState = Some (ctx', w)"
    and "inconsistentLockReported w = []"
    and "\<And>b s. lock_path (prog_of ctx) f b s \<Longrightarrow> \<exists>st. gm_get (entryStates w) b = Some st \<and> ls_eq st s"
    and "\<And>b st. gm_get (entryStates w) b = Some st \<Longrightarrow> \<exists>s. lock_path (prog_of ctx) f b s \<and> ls_eq st s"
proof -
  have "on_path (prog_of ctx) f 0 newLockState"
    using agree path_start by (fastforce simp: on_path_def paths_agree_def blocks_ok_def ls_eq_def)
  then have "agree_inv (prog_of ctx) f (newWalkContext fn) [(0, None, newLockState)]"
    by (simp add: agree_inv_def newWalkContext_def)
  from walkBlocks_agree [OF agree this] obtain ctx' w
    where w: "walkBlock f ctx (newWalkContext fn) 0 None newLockState = Some (ctx', w)"
      and inv: "agree_inv (prog_of ctx) f w []" by (auto simp: walkBlock_def)
  have entry: "on_path (prog_of ctx) f b st" if "gm_get (entryStates w) b = Some st" for b st
    using inv that by (simp add: agree_inv_def)
  have "\<exists>t. gm_get (entryStates w) b = Some t \<and> ls_eq t s" if path: "lock_path (prog_of ctx) f b s" for b s
  proof (rule must.stable_sound [OF _ _ path])
    obtain t where t: "gm_get (entryStates w) 0 = Some t" using inv by (auto simp: agree_inv_def)
    moreover have "ls_eq t newLockState"
      using on_path_eq [OF agree entry [OF t] \<open>on_path (prog_of ctx) f 0 newLockState\<close>] .
    ultimately show "\<exists>t. gm_get (entryStates w) 0 = Some t \<and> ls_eq t newLockState" by blast
  next
    fix c st c' assume c: "gm_get (entryStates w) c = Some st" "c' \<in> set (Succs (Blocks f ! c))"
    then obtain t where t: "gm_get (entryStates w) c' = Some t" using inv unfolding agree_inv_def by force
    then show "\<exists>t. gm_get (entryStates w) c' = Some t \<and> ls_eq t (block_state (prog_of ctx) f c st)"
      using on_path_eq [OF agree entry [OF t] on_path_succ [OF agree entry [OF c(1)] c(2)]] by blast
  qed
  moreover have "\<exists>s. lock_path (prog_of ctx) f b s \<and> ls_eq st s" if "gm_get (entryStates w) b = Some st" for b st
    using entry [OF that] by (auto simp: on_path_def)
  ultimately show thesis using that [OF w] inv by (auto simp: agree_inv_def)
qed

end
