(* ===== verification/Golintmu.thy ===== *)
theory Golintmu
  imports Reporter Annotations Walk_Sound
begin

text \<open>
  \<open>pkg/analyzer/golintmu.go\<close>: the phases of one pass, in their order. The records of that file are in
  \<open>Pass_Context\<close>. \<open>analyze\<close> is the body of \<open>run\<close> after the context is made. \<open>run\<close> gives the final
  context, in which the reported diagnostics and the exported facts are; without the result of
  \<open>buildssa\<close> nothing is done, and the result is \<open>None\<close> where the walk of a function does not return.
\<close>

definition collectPhases :: "passContext \<Rightarrow> passContext option" where
  "collectPhases ctx = map_option importFacts (collectObservations (parseAnnotations ctx))"

definition inferPhases :: "passContext \<Rightarrow> passContext" where
  "inferPhases ctx =
    computeConcurrentContext (propagateRequirements (deriveInitialRequirements (inferGuards ctx)))"

definition orderPhases :: "passContext \<Rightarrow> passContext" where
  "orderPhases ctx = detectAndReportLockOrderCycles (collectInterproceduralLockOrderEdges ctx)"

definition reportPhases :: "passContext \<Rightarrow> passContext" where
  "reportPhases ctx =
    (let c1 = computeReturnsHolding ctx;
         c2 = checkCallersOfAcquireHelpers c1;
         c3 = reportDeferredLockLeaks c2;
         c4 = reportDeferredUnlockOfUnlocked c3;
         c5 = checkViolations c4;
         c6 = checkInterproceduralViolations c5
     in checkExportedGuardedFields c6)"

definition laterPhases :: "passContext \<Rightarrow> passContext" where
  "laterPhases ctx = exportFacts (reportPhases (orderPhases (inferPhases ctx)))"

definition analyze :: "passContext \<Rightarrow> passContext option" where
  "analyze ctx = map_option laterPhases (collectPhases ctx)"

definition run :: "apass \<Rightarrow> passContext option" where
  "run p = (if hasSSA p then analyze (newPassContext p) else Some (newPassContext p))"

end
