(* ===== verification/Walk_Invariant.thy ===== *)
theory Walk_Invariant
  imports Walk_Sound
begin

text \<open>
  What every step of the walk in \<open>pkg/analyzer/ssawalk.go\<close> keeps, the whole walk keeps. The locale
  \<open>walk_inv\<close> states the steps of the walk that change the pass context as its contract; it is
  interpreted in \<open>Pass_Invariant\<close> on the well-formedness of the context and in \<open>Nolint\<close> on the
  suppression of diagnostics.
\<close>

lemma observable_chain: "acc \<in> set (ancestor_chain P v seen) \<Longrightarrow> observable P acc"
proof (induction P v seen rule: ancestor_chain.induct)
  case (1 P current seen)
  from "1.prems" [unfolded ancestor_chain.simps [of P current seen]] "1.IH" show ?case
    by (auto split: if_splits value_kind.splits option.splits) (metis (no_types))
qed

text \<open>The kinds of diagnostics that the walk itself reports.\<close>

fun walk_kind :: "diagnostic \<Rightarrow> bool" where
  "walk_kind (DoubleLock n) = True"
| "walk_kind (RecursiveRLock n) = True"
| "walk_kind (LockUpgradeAttempt n) = True"
| "walk_kind (MismatchedUnlock n e m) = True"
| "walk_kind (DeferredLock n m u) = True"
| "walk_kind (InconsistentLockState n) = True"
| "walk_kind d = False"

locale walk_inv =
  fixes I :: "passContext \<Rightarrow> bool"
  assumes inv_report: "I ctx \<Longrightarrow> \<forall>n. walk_kind (d n) \<Longrightarrow> I (report_lock ctx fn p ref d)"
    and inv_inconsistent: "I ctx \<Longrightarrow> I (reportInconsistentLockState ctx fn block sa sb)"
    and inv_acquire: "I ctx \<Longrightarrow> I (recordLockAcquisition ctx fn ref)"
    and inv_release: "I ctx \<Longrightarrow> I (recordRelease ctx fn ref)"
    and inv_edges: "I ctx \<Longrightarrow> I (addEdges ctx es)"
    and inv_candidate: "I ctx \<Longrightarrow> I (ctx\<lparr>unlockOfUnlockedCandidates := cs\<rparr>)"
    and inv_typo: "I ctx \<Longrightarrow> I (ctx\<lparr>deferredLockTypoReported := ts\<rparr>)"
    and inv_return: "I ctx \<Longrightarrow> I (checkReturnWithHeldLocks ctx fn p ls)"
    and inv_site: "I ctx \<Longrightarrow> I (recordCallSite ctx fn callee p ls recv)"
    and inv_observation: "I ctx \<Longrightarrow> observable (prog_of ctx) acc \<Longrightarrow> I (addObservation ctx fn isRead p ls acc)"
begin

lemma inv_reports:
  assumes "I ctx"
  shows "I (reportDoubleLock ctx fn p ref)" and "I (reportRecursiveRLock ctx fn p ref)"
    and "I (reportLockUpgradeAttempt ctx fn p ref)" and "I (reportMismatchedUnlock ctx fn p ref e m)"
    and "I (reportDeferredLockInsteadOfUnlock ctx fn p ref m)"
  using assms by (simp_all add: reportDoubleLock_def reportRecursiveRLock_def reportLockUpgradeAttempt_def
      reportMismatchedUnlock_def reportDeferredLockInsteadOfUnlock_def inv_report)

lemma inv_lock_acquire: "I ctx \<Longrightarrow> I (fst (checkAndRecordLockAcquire ctx fn p ref e ls))"
  by (auto simp: checkAndRecordLockAcquire_def checkHeldAgain_def Let_def inv_reports inv_acquire inv_edges
      split: option.splits)

lemma inv_unlock: "I ctx \<Longrightarrow> I (fst (checkAndRecordUnlock ctx fn p ref e ls))"
  by (auto simp: checkAndRecordUnlock_def Let_def inv_reports inv_release inv_candidate split: option.splits)

lemma inv_call: "I ctx \<Longrightarrow> I (fst (processCall ctx fn p common ls))"
  by (auto simp: processCall_def lockOrUnlock_def Let_def inv_lock_acquire inv_unlock inv_site
      split: option.splits list.splits)

lemma inv_defer:
  assumes "I ctx"
  shows "I (checkDeferredUnlockMismatch ctx fn p common ls)"
    and "I (checkDeferredLockInsteadOfUnlock ctx fn p common)"
    and "I (fst (recordDeferredUnlock ctx fn common ls))"
  using assms
  by (auto simp: checkDeferredUnlockMismatch_def checkDeferredLockInsteadOfUnlock_def recordDeferredUnlock_def
      Let_def inv_reports inv_release inv_typo split: option.splits prod.splits)

lemma inv_ancestors: "I ctx \<Longrightarrow> I (recordAncestorObservations ctx fn x isRead p ls)"
proof -
  have "I c \<Longrightarrow> \<forall>acc \<in> set accs. observable (prog_of c) acc \<Longrightarrow>
      I (fold (\<lambda>acc ctx. addObservation ctx fn isRead p ls acc) accs c)" for accs c
    by (induction accs arbitrary: c) (simp_all add: inv_observation)
  then show "I ctx \<Longrightarrow> I (recordAncestorObservations ctx fn x isRead p ls)"
    by (simp add: recordAncestorObservations_def observable_chain)
qed

lemma inv_access: "I ctx \<Longrightarrow> I (processAccess ctx fn addr isRead p ls)"
  by (auto simp: processAccess_def Let_def inv_observation inv_ancestors
      split: option.splits value_kind.splits)

lemma inv_instruction: "I ctx \<Longrightarrow> I (fst (processInstruction ctx fn i ls))"
  by (cases i) (simp_all add: inv_call inv_defer inv_return inv_access processStore_def processRead_def Let_def)

lemma inv_block: "I ctx \<Longrightarrow> I (fst (processBlock ctx fn is ls))"
proof (induction ctx fn "is" ls rule: processBlock.induct)
  case (2 ctx fn i "is" ls)
  then show ?case using inv_instruction [of ctx fn i ls] by (auto split: prod.splits)
qed simp

lemma inv_enter: "I ctx \<Longrightarrow> I (fst (enterBlock f ctx w b frm ls))"
  by (auto simp: enterBlock_def Let_def inv_inconsistent split: option.splits)

lemma inv_step: "I ctx \<Longrightarrow> I (fst (walkStep f ctx w call))"
proof -
  assume I: "I ctx"
  obtain b frm ls where call: "call = (b, frm, ls)" using prod_cases3 by blast
  obtain c1 w1 r where e: "enterBlock f ctx w b frm ls = (c1, w1, r)" using prod_cases3 by blast
  then have "I c1" using inv_enter [OF I, of f w b frm ls] by simp
  then have "I (fst (processBlock c1 (wc_fn w1) (Instrs (Blocks f ! b)) l))" for l by (rule inv_block)
  with I \<open>I c1\<close> show ?thesis
    by (auto simp: walkStep_def call e split: option.splits prod.splits) (metis fst_conv)
qed

lemma inv_blocks: "walkBlocks f ctx w pending = Some r \<Longrightarrow> I ctx \<Longrightarrow> I (fst r)"
proof (induction rule: walkBlocks_induct)
  case (Cons ctx w call calls ctx' w' new r)
  then show ?case using inv_step [of ctx f w call] by simp
qed simp

lemma inv_function: "walkFunction ctx fn = Some ctx' \<Longrightarrow> I ctx \<Longrightarrow> I ctx'"
  by (auto simp: walkFunction_def walkBlock_def Let_def dest: inv_blocks split: if_splits)

theorem inv_collect: "collectObservations ctx = Some ctx' \<Longrightarrow> I ctx \<Longrightarrow> I ctx'"
proof -
  let ?f = "\<lambda>fn r. Option.bind r (\<lambda>ctx. walkFunction ctx fn)"
  have none: "fold ?f fns None = None" for fns by (induction fns) auto
  have "fold ?f fns (Some c) = Some c' \<Longrightarrow> I c \<Longrightarrow> I c'" for fns c c'
  proof (induction fns arbitrary: c)
    case (Cons fn fns)
    then show ?case by (cases "walkFunction c fn") (auto simp: none dest: inv_function)
  qed simp
  then show "collectObservations ctx = Some ctx' \<Longrightarrow> I ctx \<Longrightarrow> I ctx'" unfolding collectObservations_def .
qed

end

end
