(* ===== verification/Pass_Invariant.thy ===== *)
theory Pass_Invariant
  imports Golintmu Walk_Invariant
begin

text \<open>
  The well-formedness of the pass context of \<open>pkg/analyzer/golintmu.go\<close>: its maps have one entry per
  key, an observation is recorded once per field, position and kind of access and only for a field of a
  struct that is no mutex, the sets of the function facts have no duplicates, the candidates of a return
  are stored under its position, and every edge of the lock-order graph is stored once, under its source.
  Every phase of \<open>run\<close> keeps it.
\<close>

section \<open>The invariant\<close>

definition obs_ok :: "passContext \<Rightarrow> bool" where
  "obs_ok ctx \<longleftrightarrow> gm_ok (observations ctx) \<and>
    (\<forall>key. distinct (map (\<lambda>ob. (obsPos ob, IsRead ob)) (gm_slice (observations ctx) key)) \<and>
      (\<forall>ob \<in> set (gm_slice (observations ctx) key).
        \<lparr>ok_field = key, ok_pos = obsPos ob, ok_isRead = IsRead ob\<rparr> \<in> set (observedAt ctx))) \<and>
    (\<forall>key \<in> set (gm_keys (observations ctx)).
      observable (prog_of ctx) (0, fk_FieldIndex key, fk_StructType key))"

definition sets_ok :: "funcLockFacts \<Rightarrow> bool" where
  "sets_ok f \<longleftrightarrow> distinct (Requires f) \<and> distinct (Acquires f) \<and> distinct (AcquiresTransitive f) \<and>
    distinct (ReturnsHolding f) \<and> distinct (Releases f) \<and> gm_ok (RequiresOrigin f)"

definition facts_ok :: "passContext \<Rightarrow> bool" where
  "facts_ok ctx \<longleftrightarrow> gm_ok (funcFacts ctx) \<and> (\<forall>fn. sets_ok (factsOf ctx fn))"

definition leaks_ok :: "passContext \<Rightarrow> bool" where
  "leaks_ok ctx \<longleftrightarrow> gm_ok (lockLeakCandidates ctx) \<and>
    (\<forall>p. \<forall>c \<in> set (gm_slice (lockLeakCandidates ctx) p). llc_Pos c = p)"

definition ctx_ok :: "passContext \<Rightarrow> bool" where
  "ctx_ok ctx \<longleftrightarrow> obs_ok ctx \<and> gm_ok (guards ctx) \<and> facts_ok ctx \<and> leaks_ok ctx \<and> graph_ok (orderGraph ctx)"

lemma ctx_ok_new: "ctx_ok (newPassContext p)"
  by (auto simp: ctx_ok_def obs_ok_def facts_ok_def leaks_ok_def newPassContext_def gm_keys_get factsOf_def
      sets_ok_def newFuncLockFacts_def graph_ok_empty [unfolded newLockOrderGraph_def])

section \<open>Steps that keep it\<close>

lemma ok_reports: "only_reports ctx ctx' \<Longrightarrow> ctx_ok ctx' = ctx_ok ctx"
  by (simp add: ctx_ok_def obs_ok_def facts_ok_def leaks_ok_def factsOf_def only_reports_frame)

lemma ok_updFuncFacts:
  assumes "ctx_ok ctx" and "\<And>f. sets_ok f \<Longrightarrow> sets_ok (upd f)"
  shows "ctx_ok (updFuncFacts ctx fn upd)"
  using assms by (simp add: ctx_ok_def obs_ok_def facts_ok_def leaks_ok_def)

text \<open>The updates of function facts that the phases make.\<close>

lemma sets_ok_updates [simp]:
  assumes "sets_ok f"
  shows "sets_ok (f\<lparr>Requires := set_add (Requires f) k\<rparr>)"
    and "sets_ok (f\<lparr>Acquires := set_add (Acquires f) k\<rparr>)"
    and "sets_ok (f\<lparr>Releases := set_add (Releases f) k\<rparr>)"
    and "sets_ok (f\<lparr>ReturnsHolding := set_add (ReturnsHolding f) k\<rparr>)"
    and "sets_ok (f\<lparr>RequiresOrigin := gm_append (RequiresOrigin f) k x\<rparr>)"
    and "sets_ok (f\<lparr>AcquiresTransitive := fold (\<lambda>k s. set_add s k) ks (AcquiresTransitive f)\<rparr>)"
  using assms by (simp_all add: sets_ok_def)

lemma ok_edges: "ctx_ok ctx \<Longrightarrow> ctx_ok (addEdges ctx es)"
  using addEdges_rel(1) [of ctx es]
  by (simp add: ctx_ok_def obs_ok_def facts_ok_def leaks_ok_def factsOf_def addEdges_def)

lemma ok_return: "ctx_ok ctx \<Longrightarrow> ctx_ok (checkReturnWithHeldLocks ctx fn p ls)"
  by (auto simp: ctx_ok_def obs_ok_def facts_ok_def leaks_ok_def factsOf_def checkReturnWithHeldLocks_def Let_def
      gm_slice_def split: option.splits if_splits)

lemma ok_observation:
  assumes ok: "ctx_ok ctx" and acc: "observable (prog_of ctx) acc"
  shows "ctx_ok (addObservation ctx fn isRead p ls acc)"
proof -
  obtain base i n where a: "acc = (base, i, n)" using prod_cases3 by blast
  let ?key = "\<lparr>fk_StructType = n, fk_FieldIndex = i\<rparr>"
  let ?new = "addObservation ctx fn isRead p ls acc"
  show ?thesis
  proof (cases "\<lparr>ok_field = ?key, ok_pos = p, ok_isRead = isRead\<rparr> \<in> set (observedAt ctx)")
    case True
    then show ?thesis using ok by (simp add: addObservation_def a Let_def)
  next
    case False
    have "(p, isRead) \<notin> (\<lambda>ob. (obsPos ob, IsRead ob)) ` set (gm_slice (observations ctx) ?key)"
      using False ok unfolding ctx_ok_def obs_ok_def by fastforce
    moreover have "observable (prog_of ctx) (0, i, n)" using acc by (simp add: a observable_def)
    ultimately have "obs_ok ?new"
      using ok False
      by (auto simp: ctx_ok_def obs_ok_def addObservation_def a Let_def gm_keys_get gm_get_append
          split: if_splits)
    then show ?thesis
      using ok False by (simp add: ctx_ok_def facts_ok_def leaks_ok_def factsOf_def addObservation_def a Let_def)
  qed
qed

interpretation ok: walk_inv ctx_ok
proof
  fix ctx :: passContext and fn callee p ls recv block sa sb ref d es cs ts acc isRead
  assume ok: "ctx_ok ctx"
  then show "ctx_ok (report_lock ctx fn p ref d)" by (simp add: ok_reports [OF only_reports_lock])
  show "ctx_ok (reportInconsistentLockState ctx fn block sa sb)"
    using ok by (simp add: ok_reports [OF only_reports_inconsistent])
  show "ctx_ok (recordLockAcquisition ctx fn ref)" "ctx_ok (recordRelease ctx fn ref)"
    using ok by (auto simp: recordLockAcquisition_def recordRelease_def intro: ok_updFuncFacts split: option.splits)
  show "ctx_ok (addEdges ctx es)" using ok by (rule ok_edges)
  show "ctx_ok (ctx\<lparr>unlockOfUnlockedCandidates := cs\<rparr>)" "ctx_ok (ctx\<lparr>deferredLockTypoReported := ts\<rparr>)"
    "ctx_ok (recordCallSite ctx fn callee p ls recv)"
    using ok by (simp_all add: ctx_ok_def obs_ok_def facts_ok_def leaks_ok_def factsOf_def recordCallSite_def)
  show "ctx_ok (checkReturnWithHeldLocks ctx fn p ls)" using ok by (rule ok_return)
  assume "observable (prog_of ctx) acc"
  with ok show "ctx_ok (addObservation ctx fn isRead p ls acc)" by (rule ok_observation)
qed

section \<open>The phases\<close>

lemma ok_annotations: "ctx_ok ctx \<Longrightarrow> ctx_ok (ctx\<lparr>annos := a\<rparr>)"
  by (simp add: ctx_ok_def obs_ok_def facts_ok_def leaks_ok_def factsOf_def)

lemma ok_guards: "ctx_ok ctx \<Longrightarrow> gm_ok gs \<Longrightarrow> ctx_ok (ctx\<lparr>guards := gs\<rparr>)"
  by (simp add: ctx_ok_def obs_ok_def facts_ok_def leaks_ok_def factsOf_def)

lemma fold_ok: "(\<And>x c. x \<in> set xs \<Longrightarrow> I c \<Longrightarrow> I (f x c)) \<Longrightarrow> I c \<Longrightarrow> I (fold f xs c)"
  by (induction xs arbitrary: c) auto

lemma ok_importFieldGuardFacts: "ctx_ok ctx \<Longrightarrow> ctx_ok (importFieldGuardFacts ctx)"
proof -
  assume ok: "ctx_ok ctx"
  have "gm_ok (importGuards n fct gs)" if "gm_ok gs" for n fct gs
    unfolding importGuards_def using that by (intro fold_ok [where I = gm_ok]) auto
  then have "gm_ok (snd (importTypeOnce ctx key st))" if "gm_ok (snd st)" for key st
    using that by (auto simp: importTypeOnce_def importTypeGuards_def Let_def split: prod.splits option.splits)
  then have "gm_ok (snd (fold (importTypeOnce ctx) keys ([], guards ctx)))" for keys
    using ok by (intro fold_ok [where I = "\<lambda>st. gm_ok (snd st)"]) (auto simp: ctx_ok_def)
  then show ?thesis unfolding importFieldGuardFacts_def by (rule ok_guards [OF ok])
qed

lemma sets_ok_mergeFact: "sets_ok f \<Longrightarrow> sets_ok (mergeFact ctx fct f)"
proof -
  have "distinct s \<Longrightarrow> distinct (addRefs ctx refs s)" for refs s
    unfolding addRefs_def by (rule fold_ok [where I = distinct]) (auto split: option.splits)
  then show "sets_ok f \<Longrightarrow> sets_ok (mergeFact ctx fct f)" by (simp add: sets_ok_def mergeFact_def)
qed

lemma ok_importFacts: "ctx_ok ctx \<Longrightarrow> ctx_ok (importFacts ctx)"
proof -
  have "ctx_ok c \<Longrightarrow> ctx_ok (importFuncLockFacts c)" for c
    unfolding importFuncLockFacts_def
    by (rule fold_ok [where I = ctx_ok])
      (auto intro: ok_updFuncFacts [OF _ sets_ok_mergeFact] split: option.splits)
  moreover have "ctx_ok c \<Longrightarrow> ctx_ok (importConcurrentFacts c)" for c
    unfolding importConcurrentFacts_def
    by (rule fold_ok [where I = ctx_ok]) (auto intro: ok_annotations split: option.splits)
  ultimately show "ctx_ok ctx \<Longrightarrow> ctx_ok (importFacts ctx)"
    by (simp add: importFacts_def ok_importFieldGuardFacts)
qed

lemma ok_inferGuards: "ctx_ok ctx \<Longrightarrow> ctx_ok (inferGuards ctx)"
  unfolding inferGuards_def
  by (rule ok_guards, assumption, rule fold_ok [where I = gm_ok])
    (auto simp: ctx_ok_def split: option.splits)

lemma ok_addOrigin: "ctx_ok ctx \<Longrightarrow> ctx_ok (addOrigin ctx fn mfk x)"
  by (auto simp: addOrigin_def intro: ok_updFuncFacts)

lemma ok_derive: "ctx_ok ctx \<Longrightarrow> ctx_ok (deriveInitialRequirements ctx)"
proof -
  have "ctx_ok c \<Longrightarrow> ctx_ok (deriveFrom key guard obs c)" for key guard obs c
    by (simp add: deriveFrom_def Let_def ok_addOrigin ok_updFuncFacts)
  then have "ctx_ok c \<Longrightarrow> ctx_ok (fold (deriveFrom key guard) obs c)" for key guard obs c
    by (rule fold_ok [where I = ctx_ok])
  then show "ctx_ok ctx \<Longrightarrow> ctx_ok (deriveInitialRequirements ctx)"
    unfolding deriveInitialRequirements_def by (intro fold_ok [where I = ctx_ok]) (auto split: option.splits)
qed

lemma ok_reqPass: "ctx_ok ctx \<Longrightarrow> ctx_ok (fst (reqPass i ctx))"
proof -
  have site: "ctx_ok (fst st) \<Longrightarrow> ctx_ok (fst (reqSite callee mfk cs st))" for callee mfk cs st
    by (auto simp: reqSite_def addTransitiveOrigin_def Let_def ok_addOrigin ok_updFuncFacts split: prod.splits)
  have "ctx_ok (fst st) \<Longrightarrow> ctx_ok (fst (reqCallee sites callee st))" for sites callee st
    unfolding reqCallee_def
    by (auto intro!: fold_ok [where I = "\<lambda>st. ctx_ok (fst st)"] site split: option.splits)
  then show "ctx_ok ctx \<Longrightarrow> ctx_ok (fst (reqPass i ctx))"
    unfolding reqPass_def by (intro fold_ok [where I = "\<lambda>st. ctx_ok (fst st)"]) auto
qed

lemma ok_acqPass: "ctx_ok ctx \<Longrightarrow> ctx_ok (fst (acqPass i ctx))"
proof -
  have "ctx_ok (fst st) \<Longrightarrow> ctx_ok (fst (acqSite cs st))" for cs st
    by (auto simp: acqSite_def Let_def ok_updFuncFacts split: prod.splits option.splits)
  then show "ctx_ok ctx \<Longrightarrow> ctx_ok (fst (acqPass i ctx))"
    unfolding acqPass_def by (intro fold_ok [where I = "\<lambda>st. ctx_ok (fst st)"]) auto
qed

lemma ok_seedAcquires: "ctx_ok ctx \<Longrightarrow> ctx_ok (seedAcquires ctx)"
proof -
  assume ok: "ctx_ok ctx"
  then have "facts_ok (seedAcquires ctx)"
    unfolding ctx_ok_def facts_ok_def factsOf_seedAcquires
    by (simp add: seedAcquires_def gm_ok_def comp_def split_def)
  with ok show ?thesis by (simp add: ctx_ok_def obs_ok_def leaks_ok_def seedAcquires_def)
qed

lemma ok_propagate: "ctx_ok ctx \<Longrightarrow> ctx_ok (propagateRequirements ctx)"
proof -
  have "ctx_ok c \<Longrightarrow> ctx_ok (iterate reqPass n i c)" "ctx_ok c \<Longrightarrow> ctx_ok (iterate acqPass n i c)" for n i c
    using ok_reqPass ok_acqPass by (metis (no_types) fst_conv iterate_invariant [where I = ctx_ok])+
  then show "ctx_ok ctx \<Longrightarrow> ctx_ok (propagateRequirements ctx)"
    by (simp add: propagateRequirements_def ok_seedAcquires)
qed

lemma ok_concurrent: "ctx_ok ctx \<Longrightarrow> ctx_ok (computeConcurrentContext ctx)"
  by (simp add: computeConcurrentContext_def ctx_ok_def obs_ok_def facts_ok_def leaks_ok_def factsOf_def Let_def)

lemma ok_returnsHolding: "ctx_ok ctx \<Longrightarrow> ctx_ok (computeReturnsHolding ctx)"
  unfolding computeReturnsHolding_def
  by (rule fold_ok [where I = ctx_ok]) (auto simp: ok_updFuncFacts)

lemma ok_key: "ctx_ok ctx \<Longrightarrow> ctx_ok (report_key ctx fn p mfk d)"
  by (simp add: ok_reports [OF report_key_reports(1)])

lemma ok_getOrCreate: "ctx_ok ctx \<Longrightarrow> ctx_ok (snd (getOrCreateFuncFacts ctx fn))"
  by (auto simp: getOrCreateFuncFacts_def ctx_ok_def obs_ok_def facts_ok_def leaks_ok_def factsOf_def
      sets_ok_def newFuncLockFacts_def split: option.splits)

lemma ok_acquireHelpers: "ctx_ok ctx \<Longrightarrow> ctx_ok (checkCallersOfAcquireHelpers ctx)"
proof -
  have "ctx_ok c \<Longrightarrow> ctx_ok (reportAcquireHelpers c)" for c
    unfolding reportAcquireHelpers_def reportAcquireHelper_def
    by (rule fold_ok [where I = ctx_ok]) (auto intro!: fold_ok [where I = ctx_ok] ok_key)
  moreover have "ctx_ok (checkCallerReleases c0 ics c)" if "ctx_ok c" for c0 ics c
    using ok_getOrCreate [OF that, of "Caller (snd ics)"] that
    unfolding checkCallerReleases_def reportCallerMissingUnlock_def
    by (auto intro!: fold_ok [where I = ctx_ok] ok_key split: prod.splits option.splits)
  ultimately show "ctx_ok ctx \<Longrightarrow> ctx_ok (checkCallersOfAcquireHelpers ctx)"
    unfolding checkCallersOfAcquireHelpers_def by (intro fold_ok [where I = ctx_ok]) auto
qed

lemma ok_order: "ctx_ok ctx \<Longrightarrow> ctx_ok (orderPhases ctx)"
  by (simp add: orderPhases_def collectInterproceduralLockOrderEdges_def ok_edges
      ok_reports [OF detectAndReportLockOrderCycles_reports(1)])

lemma ok_reportPhases: "ctx_ok ctx \<Longrightarrow> ctx_ok (reportPhases ctx)"
  by (simp add: reportPhases_def Let_def ok_acquireHelpers ok_returnsHolding
      ok_reports [OF reportDeferredLockLeaks_reports(1)] ok_reports [OF reportDeferredUnlockOfUnlocked_reports(1)]
      ok_reports [OF checkViolations_reports(1)] ok_reports [OF checkInterproceduralViolations_reports(1)]
      ok_reports [OF checkExportedGuardedFields_reports(1)])

lemma ok_exportFacts: "ctx_ok (exportFacts ctx) = ctx_ok ctx"
  by (simp add: exportFacts_def exportFieldGuardFacts_def exportFuncLockFacts_def exportConcurrentFacts_def Let_def
      ctx_ok_def obs_ok_def facts_ok_def leaks_ok_def factsOf_def)

lemma ok_inferPhases: "ctx_ok ctx \<Longrightarrow> ctx_ok (inferPhases ctx)"
  by (simp add: inferPhases_def ok_concurrent ok_propagate ok_derive ok_inferGuards)

lemma ok_collectPhases: "collectPhases ctx = Some ctx' \<Longrightarrow> ctx_ok ctx \<Longrightarrow> ctx_ok ctx'"
  by (auto simp: collectPhases_def parseAnnotations_def
      intro!: ok_importFacts dest: ok.inv_collect [OF _ ok_annotations])

lemma ok_run: "run p = Some ctx \<Longrightarrow> ctx_ok ctx"
  by (auto simp: run_def analyze_def laterPhases_def ok_exportFacts ctx_ok_new
      intro!: ok_reportPhases ok_order ok_inferPhases dest: ok_collectPhases [OF _ ctx_ok_new] split: if_splits)

end
