(* ===== verification/Nolint.thy ===== *)
theory Nolint
  imports Pass_Invariant
begin

text \<open>
  Suppression (\<open>pkg/analyzer/annotations.go\<close> and the report functions of \<open>reporter.go\<close>): no phase
  of \<open>run\<close> reports on a line that a \<open>//mu:nolint\<close> comment suppresses, except for the exported guarded
  fields, which are reported without looking at the annotations.
\<close>

fun exported_field :: "diagnostic \<Rightarrow> bool" where
  "exported_field (ExportedGuardedField s f m) = True"
| "exported_field d = False"

text \<open>The positions in \<open>N\<close> are suppressed, and nothing is reported there.\<close>

definition quiet :: "(pos \<Rightarrow> bool) \<Rightarrow> passContext \<Rightarrow> bool" where
  "quiet N ctx \<longleftrightarrow> (\<forall>fn p. N p \<longrightarrow> isSuppressed ctx fn p) \<and>
    (\<forall>(p, d) \<in> set (diagnostics ctx). exported_field d \<or> \<not> N p)"

lemma isSuppressed_report [simp]: "isSuppressed (report ctx p d) fn q = isSuppressed ctx fn q"
  by (rule isSuppressed_same) simp_all

lemma quiet_report: "quiet N ctx \<Longrightarrow> \<not> isSuppressed ctx fn p \<Longrightarrow> quiet N (report ctx p d)"
  by (auto simp: quiet_def)

lemma quiet_reports:
  assumes "quiet N ctx" and "only_reports ctx ctx'" and "set (diagnostics ctx') = set (diagnostics ctx) \<union> D"
    and "\<And>p d. (p, d) \<in> D \<Longrightarrow> exported_field d \<or> (\<exists>fn. \<not> isSuppressed ctx fn p)"
  shows "quiet N ctx'"
  using assms(1, 4) unfolding quiet_def reports_invariant(1) [OF assms(2)] assms(3) by blast

lemma quiet_same:
  assumes "quiet N ctx" and "pass ctx' = pass ctx" "annos ctx' = annos ctx" "diagnostics ctx' = diagnostics ctx"
  shows "quiet N ctx'"
  using assms(1) unfolding quiet_def isSuppressed_same [OF assms(2, 3)] assms(4) .

lemma quiet_concurrent:
  assumes "quiet N ctx" and "annos ctx = Some a"
  shows "quiet N (ctx\<lparr>annos := Some (a\<lparr>concurrent := fns\<rparr>)\<rparr>)"
proof -
  have "isSuppressed (ctx\<lparr>annos := Some (a\<lparr>concurrent := fns\<rparr>)\<rparr>) fn p = isSuppressed ctx fn p" for fn p
    by (simp add: isSuppressed_def assms(2))
  with assms(1) show ?thesis by (simp add: quiet_def)
qed

lemma quiet_updFuncFacts: "quiet N ctx \<Longrightarrow> quiet N (updFuncFacts ctx fn upd)"
  by (rule quiet_same) simp_all

lemma quiet_lock: "quiet N ctx \<Longrightarrow> quiet N (report_lock ctx fn p ref d)"
  by (auto simp: report_lock_def Let_def intro: quiet_report)

lemma quiet_key: "quiet N ctx \<Longrightarrow> quiet N (report_key ctx fn p mfk d)"
  by (auto simp: report_key_def Let_def intro: quiet_report)

lemma quiet_inconsistent: "quiet N ctx \<Longrightarrow> quiet N (reportInconsistentLockState ctx fn block sa sb)"
proof -
  have "quiet N ctx \<Longrightarrow> \<not> isSuppressed ctx fn p \<Longrightarrow> quiet N (report_inconsistent ctx p refs seen)" for p refs seen
  proof (induction ctx p refs seen rule: report_inconsistent.induct)
    case (2 ctx p ref refs seen)
    then show ?case by (auto simp: Let_def quiet_report)
  qed simp
  then show "quiet N ctx \<Longrightarrow> quiet N (reportInconsistentLockState ctx fn block sa sb)"
    by (simp add: reportInconsistentLockState_def Let_def split: prod.splits)
qed

interpretation quiet: walk_inv "quiet N" for N
proof
  fix ctx :: passContext and fn callee p ls recv block sa sb ref d es cs ts acc isRead
  assume q: "quiet N ctx"
  then show "quiet N (report_lock ctx fn p ref d)" "quiet N (reportInconsistentLockState ctx fn block sa sb)"
    by (rule quiet_lock quiet_inconsistent)+
  show "quiet N (recordLockAcquisition ctx fn ref)" "quiet N (recordRelease ctx fn ref)"
    using q by (auto simp: recordLockAcquisition_def recordRelease_def quiet_updFuncFacts split: option.splits)
  show "quiet N (addEdges ctx es)" "quiet N (ctx\<lparr>unlockOfUnlockedCandidates := cs\<rparr>)"
    "quiet N (ctx\<lparr>deferredLockTypoReported := ts\<rparr>)" "quiet N (recordCallSite ctx fn callee p ls recv)"
    "quiet N (checkReturnWithHeldLocks ctx fn p ls)" "quiet N (addObservation ctx fn isRead p ls acc)"
    by (rule quiet_same [OF q]; simp add: addEdges_def recordCallSite_def checkReturnWithHeldLocks_def Let_def
        addObservation_def split: prod.splits)+
qed

section \<open>The phases after the walk\<close>

lemma quiet_importFacts: "quiet N ctx \<Longrightarrow> quiet N (importFacts ctx)"
proof -
  have "quiet N c \<Longrightarrow> quiet N (importFieldGuardFacts c)" for c
    by (rule quiet_same) (simp_all add: importFieldGuardFacts_def)
  moreover have "quiet N c \<Longrightarrow> quiet N (importFuncLockFacts c)" for c
    unfolding importFuncLockFacts_def
    by (rule fold_ok [where I = "quiet N"]) (auto simp: quiet_updFuncFacts split: option.splits)
  moreover have "quiet N c \<Longrightarrow> quiet N (importConcurrentFacts c)" for c
    unfolding importConcurrentFacts_def
    by (rule fold_ok [where I = "quiet N"]) (auto intro: quiet_concurrent split: option.splits)
  ultimately show "quiet N ctx \<Longrightarrow> quiet N (importFacts ctx)" by (simp add: importFacts_def)
qed

lemma quiet_facts_only: "facts_only ctx ctx' \<Longrightarrow> quiet N ctx \<Longrightarrow> quiet N ctx'"
  by (rule quiet_same) (simp_all add: facts_only_same)

lemma facts_only_derive: "facts_only ctx (deriveInitialRequirements ctx)"
proof -
  have "facts_only ctx c \<Longrightarrow> facts_only ctx (fold (deriveFrom key guard) obs c)" for key guard obs c
    by (rule fold_ok [where I = "facts_only ctx"]) (auto intro: facts_only_trans)
  then show ?thesis unfolding deriveInitialRequirements_def
    by (intro fold_ok [where I = "facts_only ctx"]) (auto split: option.splits)
qed

lemma quiet_inferPhases: "quiet N ctx \<Longrightarrow> quiet N (inferPhases ctx)"
proof -
  have "quiet N c \<Longrightarrow> quiet N (inferGuards c)" for c
    by (rule quiet_same) (simp_all add: inferGuards_def)
  moreover have "quiet N c \<Longrightarrow> quiet N (computeConcurrentContext c)" for c
    by (rule quiet_same) simp_all
  ultimately show "quiet N ctx \<Longrightarrow> quiet N (inferPhases ctx)"
    by (simp add: inferPhases_def quiet_facts_only [OF facts_only_propagate] quiet_facts_only [OF facts_only_derive])
qed

lemma diag_unsuppressed:
  "pd \<in> field_diag ctx obs key guard e \<Longrightarrow> \<not> isSuppressed ctx (obsFunc obs) (fst pd)"
  "pd \<in> lock_diag ctx fn p ref e' \<Longrightarrow> \<not> isSuppressed ctx fn (fst pd)"
  "pd \<in> key_diag ctx fn p mfk e' \<Longrightarrow> \<not> isSuppressed ctx fn (fst pd)"
  by (auto simp: field_diag_def lock_diag_def key_diag_def)

lemma quiet_order: "quiet N ctx \<Longrightarrow> quiet N (orderPhases ctx)"
proof -
  have "quiet N c \<Longrightarrow> quiet N (detectAndReportLockOrderCycles c)" for c
    by (erule quiet_reports [OF _ detectAndReportLockOrderCycles_reports]) (auto simp: cycle_reports_def)
  moreover have "quiet N c \<Longrightarrow> quiet N (collectInterproceduralLockOrderEdges c)" for c
    by (rule quiet_same) (simp_all add: collectInterproceduralLockOrderEdges_def addEdges_def)
  ultimately show "quiet N ctx \<Longrightarrow> quiet N (orderPhases ctx)" by (simp add: orderPhases_def)
qed

lemma quiet_acquireHelpers: "quiet N ctx \<Longrightarrow> quiet N (checkCallersOfAcquireHelpers ctx)"
proof -
  have "quiet N c \<Longrightarrow> quiet N (reportAcquireHelpers c)" for c
    unfolding reportAcquireHelpers_def reportAcquireHelper_def
    by (rule fold_ok [where I = "quiet N"]) (auto intro!: fold_ok [where I = "quiet N"] quiet_key)
  moreover have "quiet N (checkCallerReleases c0 ics c)" if "quiet N c" for c0 ics c
  proof -
    have "quiet N (snd (getOrCreateFuncFacts c fn))" for fn
      by (rule quiet_same [OF that]) (simp_all add: getOrCreateFuncFacts_def split: option.splits)
    then show ?thesis using that unfolding checkCallerReleases_def reportCallerMissingUnlock_def
      by (auto intro!: fold_ok [where I = "quiet N"] quiet_key split: prod.splits option.splits) (metis snd_conv)+
  qed
  ultimately show "quiet N ctx \<Longrightarrow> quiet N (checkCallersOfAcquireHelpers ctx)"
    unfolding checkCallersOfAcquireHelpers_def by (intro fold_ok [where I = "quiet N"]) auto
qed

lemma quiet_checks:
  assumes "quiet N ctx"
  shows "quiet N (reportDeferredLockLeaks ctx)" and "quiet N (reportDeferredUnlockOfUnlocked ctx)"
    and "quiet N (checkViolations ctx)" and "quiet N (checkInterproceduralViolations ctx)"
    and "quiet N (checkExportedGuardedFields ctx)"
proof -
  show "quiet N (reportDeferredLockLeaks ctx)"
    by (rule quiet_reports [OF assms reportDeferredLockLeaks_reports])
      (auto simp: leaks_def dest: diag_unsuppressed(2))
  show "quiet N (reportDeferredUnlockOfUnlocked ctx)"
    by (rule quiet_reports [OF assms reportDeferredUnlockOfUnlocked_reports])
      (auto simp: bad_unlocks_def dest: diag_unsuppressed(2))
  show "quiet N (checkViolations ctx)"
    by (rule quiet_reports [OF assms checkViolations_reports])
      (auto simp: violations_def dest: diag_unsuppressed(1))
  show "quiet N (checkInterproceduralViolations ctx)"
    by (rule quiet_reports [OF assms checkInterproceduralViolations_reports])
      (auto simp: site_reports_def missing_def double_locks_def missing_diag_def double_diag_def
        dest: diag_unsuppressed(3))
  show "quiet N (checkExportedGuardedFields ctx)"
    by (rule quiet_reports [OF assms checkExportedGuardedFields_reports]) (auto simp: exported_reports_def)
qed

lemma quiet_reportPhases: "quiet N ctx \<Longrightarrow> quiet N (reportPhases ctx)"
proof -
  have "quiet N c \<Longrightarrow> quiet N (computeReturnsHolding c)" for c
    unfolding computeReturnsHolding_def by (rule fold_ok [where I = "quiet N"]) (auto simp: quiet_updFuncFacts)
  then show "quiet N ctx \<Longrightarrow> quiet N (reportPhases ctx)"
    by (simp add: reportPhases_def Let_def quiet_checks quiet_acquireHelpers)
qed

lemma quiet_later:
  assumes "quiet N ctx"
  shows "quiet N (laterPhases ctx)"
proof -
  have "quiet N c \<Longrightarrow> quiet N (exportFacts c)" for c
    by (erule quiet_same) (simp_all add: exportFacts_def exportFieldGuardFacts_def exportFuncLockFacts_def
        exportConcurrentFacts_def Let_def)
  then show ?thesis
    using quiet_reportPhases [OF quiet_order [OF quiet_inferPhases [OF assms]]] by (simp add: laterPhases_def)
qed

lemma quiet_run:
  assumes "run p = Some ctx" and "(q, d) \<in> set (diagnostics ctx)" and "\<not> exported_field d" and "IsValid q"
  shows "\<not> suppresses_line (newPassContext p) (Filename (Fset p q)) (Line (Fset p q))"
proof (cases "hasSSA p")
  case True
  define N where "N q = (IsValid q \<and> suppresses_line (newPassContext p) (Filename (Fset p q)) (Line (Fset p q)))" for q
  have "quiet N (parseAnnotations (newPassContext p))"
    unfolding quiet_def isSuppressed_parsed by (simp add: N_def parseAnnotations_def) (simp add: newPassContext_def)
  moreover obtain c where "collectObservations (parseAnnotations (newPassContext p)) = Some c"
      "ctx = laterPhases (importFacts c)"
    using assms(1) True by (auto simp: run_def analyze_def collectPhases_def)
  ultimately have "quiet N ctx"
    using quiet.inv_collect by (auto intro!: quiet_later quiet_importFacts)
  with assms show ?thesis by (auto simp: quiet_def N_def)
qed (use assms in \<open>auto simp: run_def newPassContext_def\<close>)

end
