(* ===== verification/End_To_End.thy ===== *)
theory End_To_End
  imports Nolint
begin

text \<open>
  Theorems about the whole of \<open>run\<close> (\<open>pkg/analyzer/golintmu.go\<close>): when it returns, that the reporting
  phases do not disturb what each other looks at, and that an access without its guard is reported at
  the access or at the top of every chain of callers that do not hold the guard either.
\<close>

section \<open>The pass returns\<close>

interpretation fixed: walk_inv "\<lambda>ctx. pass ctx = p \<and> srcFuncs ctx = fns" for p fns
  by unfold_locales
    (auto simp: only_reports_frame [OF only_reports_lock] only_reports_frame [OF only_reports_inconsistent]
      recordLockAcquisition_def recordRelease_def addEdges_def checkReturnWithHeldLocks_def recordCallSite_def
      addObservation_def Let_def split: option.splits prod.splits)

definition walkable :: "prog \<Rightarrow> func \<Rightarrow> bool" where
  "walkable P fn \<longleftrightarrow> Blocks (func_at P fn) = [] \<or> acyclic (cfg (func_at P fn)) \<or> paths_agree P (func_at P fn)"

lemma walkFunction_returns: "walkable (prog_of ctx) fn \<Longrightarrow> \<exists>ctx'. walkFunction ctx fn = Some ctx'"
proof -
  let ?f = "func_at (prog_of ctx) fn"
  assume w: "walkable (prog_of ctx) fn"
  have "\<exists>r. walkBlock ?f ctx (newWalkContext fn) 0 None newLockState = Some r" if "Blocks ?f \<noteq> []"
    using w that walkBlocks_returns [of ?f ctx "newWalkContext fn" "[(0, None, newLockState)]"]
    by (auto simp: walkable_def walkBlock_def elim!: walk_exact [of ctx ?f fn])
  then show ?thesis by (auto simp: walkFunction_def Let_def)
qed

lemma collectObservations_returns:
  "\<forall>fn \<in> set (srcFuncs ctx). walkable (prog_of ctx) fn \<Longrightarrow> \<exists>ctx'. collectObservations ctx = Some ctx'"
proof -
  let ?f = "\<lambda>fn r. Option.bind r (\<lambda>ctx. walkFunction ctx fn)"
  have "\<forall>fn \<in> set fns. walkable (prog_of c) fn \<Longrightarrow> \<exists>c'. fold ?f fns (Some c) = Some c'" for fns c
  proof (induction fns arbitrary: c)
    case (Cons fn fns)
    from Cons.prems obtain c1 where c1: "walkFunction c fn = Some c1" using walkFunction_returns by fastforce
    then have "pass c1 = pass c" using fixed.inv_function [of c fn c1 "pass c" "srcFuncs c"] by simp
    then show ?case using Cons by (simp add: c1)
  qed simp
  then show "\<forall>fn \<in> set (srcFuncs ctx). walkable (prog_of ctx) fn \<Longrightarrow> \<exists>ctx'. collectObservations ctx = Some ctx'"
    unfolding collectObservations_def by blast
qed

lemma run_returns:
  assumes "\<forall>fn \<in> set (SrcFuncs p). walkable (passProg p) fn"
  shows "\<exists>ctx. run p = Some ctx"
proof -
  have "\<exists>c. collectObservations (parseAnnotations (newPassContext p)) = Some c"
    using assms by (intro collectObservations_returns) (simp add: parseAnnotations_def newPassContext_def)
  then show ?thesis by (auto simp: run_def analyze_def collectPhases_def)
qed

section \<open>What the reporting phases leave alone\<close>

definition same_core :: "passContext \<Rightarrow> passContext \<Rightarrow> bool" where
  "same_core ctx ctx' \<longleftrightarrow> pass ctx' = pass ctx \<and> observations ctx' = observations ctx \<and> guards ctx' = guards ctx \<and>
    callSites ctx' = callSites ctx \<and> concurrentFuncs ctx' = concurrentFuncs ctx \<and> annos ctx' = annos ctx \<and>
    verbose ctx' = verbose ctx \<and> set (diagnostics ctx) \<subseteq> set (diagnostics ctx') \<and>
    (\<forall>m. requirers ctx' m = requirers ctx m \<and> acquirers ctx' m = acquirers ctx m) \<and>
    (\<forall>fn. RequiresOrigin (factsOf ctx' fn) = RequiresOrigin (factsOf ctx fn))"

lemma same_core_refl [simp]: "same_core ctx ctx"
  by (simp add: same_core_def)

lemma same_core_trans [trans]: "same_core a b \<Longrightarrow> same_core b c \<Longrightarrow> same_core a c"
  by (auto simp: same_core_def)

lemma same_core_reports:
  assumes "only_reports ctx ctx'" and "set (diagnostics ctx') = set (diagnostics ctx) \<union> D"
  shows "same_core ctx ctx'"
  using assms by (auto simp: same_core_def only_reports_frame requirers_def acquirers_def factsOf_def)

lemma same_core_fold:
  assumes "\<And>x c. same_core c (f x c)"
  shows "same_core c (fold f xs c)"
  by (rule fold_ok [where I = "same_core c"]) (use assms in \<open>auto intro: same_core_trans\<close>)

lemma same_core_order: "same_core ctx (orderPhases ctx)"
proof -
  have "same_core c (collectInterproceduralLockOrderEdges c)" for c
    by (simp add: same_core_def collectInterproceduralLockOrderEdges_def addEdges_def requirers_def acquirers_def
        factsOf_def)
  then show ?thesis
    unfolding orderPhases_def
    by (rule same_core_trans) (rule same_core_reports [OF detectAndReportLockOrderCycles_reports])
qed

lemma same_core_returnsHolding: "same_core ctx (computeReturnsHolding ctx)"
proof -
  have "same_core c (updFuncFacts c fn (\<lambda>f. f\<lparr>ReturnsHolding := set_add (ReturnsHolding f) mfk\<rparr>))" for c fn mfk
    by (auto simp: same_core_def requirers_def acquirers_def)
  then show ?thesis unfolding computeReturnsHolding_def by (intro same_core_fold) (auto split: prod.splits)
qed

lemma same_core_key: "same_core ctx (report_key ctx fn p mfk d)"
  by (rule same_core_reports [OF report_key_reports])

lemma same_core_acquireHelpers: "same_core ctx (checkCallersOfAcquireHelpers ctx)"
proof -
  have "same_core c (reportAcquireHelpers c)" for c
    unfolding reportAcquireHelpers_def reportAcquireHelper_def
    by (rule same_core_fold) (auto intro!: same_core_fold same_core_key split: prod.splits)
  moreover have "same_core c (checkCallerReleases c0 ics c)" for c0 ics c
  proof -
    have "same_core c c1" if c1: "getOrCreateFuncFacts c fn = (f, c1)" for fn f c1
    proof -
      have "factsOf c1 g = factsOf c g" for g
        using c1 by (auto simp: getOrCreateFuncFacts_def factsOf_def split: option.splits if_splits)
      then show ?thesis using c1
        by (auto simp: getOrCreateFuncFacts_def same_core_def requirers_def acquirers_def split: option.splits)
    qed
    then show ?thesis unfolding checkCallerReleases_def reportCallerMissingUnlock_def
      by (auto intro!: same_core_trans [OF _ same_core_fold] same_core_key split: prod.splits option.splits)
  qed
  ultimately show ?thesis
    unfolding checkCallersOfAcquireHelpers_def by (intro same_core_trans [OF _ same_core_fold])
qed

lemma same_core_invariant:
  assumes "same_core ctx ctx'"
  shows "isSuppressed ctx' fn p = isSuppressed ctx fn p" and "isConcurrent ctx' fn = isConcurrent ctx fn"
    and "hasCallers ctx' fn = hasCallers ctx fn" and "prog_of ctx' = prog_of ctx"
    and "shouldSuppressDirectViolation ctx' fn mfk = shouldSuppressDirectViolation ctx fn mfk"
proof -
  have suppress: "shouldSuppressDirectViolation c fn mfk \<longleftrightarrow> fn \<in> requirers c mfk \<and> hasCallers c fn" for c
    by (auto simp: shouldSuppressDirectViolation_def requirers_def factsOf_def newFuncLockFacts_def
        split: option.splits)
  have same: "pass ctx' = pass ctx" "annos ctx' = annos ctx" "concurrentFuncs ctx' = concurrentFuncs ctx"
    "callSites ctx' = callSites ctx" "requirers ctx' mfk = requirers ctx mfk"
    using assms by (simp_all add: same_core_def)
  show "isSuppressed ctx' fn p = isSuppressed ctx fn p" using same by (intro isSuppressed_same)
  show "isConcurrent ctx' fn = isConcurrent ctx fn" "hasCallers ctx' fn = hasCallers ctx fn"
    "prog_of ctx' = prog_of ctx"
    by (simp_all add: isConcurrent_def hasCallers_def same)
  then show "shouldSuppressDirectViolation ctx' fn mfk = shouldSuppressDirectViolation ctx fn mfk"
    by (simp add: suppress same)
qed

lemma same_core_violations: "same_core ctx ctx' \<Longrightarrow> violations ctx' x = violations ctx x"
  by (simp add: violations_def field_diag_def same_core_invariant split: prod.splits)

lemma same_core_guarded: "same_core ctx ctx' \<Longrightarrow> guarded_obs ctx' = guarded_obs ctx"
  by (simp add: guarded_obs_def same_core_def)

lemma same_core_before_violations:
  "same_core ctx (reportDeferredUnlockOfUnlocked (reportDeferredLockLeaks
    (checkCallersOfAcquireHelpers (computeReturnsHolding (orderPhases ctx)))))"
proof -
  let ?c1 = "computeReturnsHolding (orderPhases ctx)"
  let ?c2 = "checkCallersOfAcquireHelpers ?c1"
  have "same_core ctx (orderPhases ctx)" by (rule same_core_order)
  also have "same_core (orderPhases ctx) ?c1" by (rule same_core_returnsHolding)
  also have "same_core ?c1 ?c2" by (rule same_core_acquireHelpers)
  also have "same_core ?c2 (reportDeferredLockLeaks ?c2)"
    by (rule same_core_reports [OF reportDeferredLockLeaks_reports])
  also have "same_core (reportDeferredLockLeaks ?c2) (reportDeferredUnlockOfUnlocked (reportDeferredLockLeaks ?c2))"
    by (rule same_core_reports [OF reportDeferredUnlockOfUnlocked_reports])
  finally show ?thesis .
qed

section \<open>What is reported\<close>

text \<open>A call site at which a required lock is missing, as the interprocedural check sees it.\<close>

definition bad_site :: "passContext \<Rightarrow> callSiteRecord \<Rightarrow> mutexFieldKey \<Rightarrow> bool" where
  "bad_site ctx cs mfk \<longleftrightarrow> cs \<in> set (callSites ctx) \<and> Callee cs \<in> requirers ctx mfk \<and>
    \<not> callerHoldsMutex cs mfk \<and> \<not> isPrePublicationConstructorCall (prog_of ctx) cs \<and> isConcurrent ctx (Caller cs) \<and> \<not> hasCallers ctx (Caller cs) \<and>
    \<not> isSuppressed ctx (Caller cs) (csPos cs) \<and> mutexFieldKeyName (prog_of ctx) mfk \<noteq> []"

lemma laterPhases_diagnostics:
  fixes c
  defines "ctx \<equiv> inferPhases c"
  shows "(\<Union>x \<in> guarded_obs ctx. violations ctx x) \<subseteq> set (diagnostics (laterPhases c))"
    and "cs \<in> set (callSites ctx) \<Longrightarrow> site_reports (checkViolations (reportDeferredUnlockOfUnlocked
      (reportDeferredLockLeaks (checkCallersOfAcquireHelpers (computeReturnsHolding (orderPhases ctx)))))) cs
        \<subseteq> set (diagnostics (laterPhases c))"
proof -
  let ?c4 = "reportDeferredUnlockOfUnlocked (reportDeferredLockLeaks
    (checkCallersOfAcquireHelpers (computeReturnsHolding (orderPhases ctx))))"
  have final: "set (diagnostics (laterPhases c)) \<supseteq>
      set (diagnostics (checkInterproceduralViolations (checkViolations ?c4)))"
    by (simp add: laterPhases_def reportPhases_def Let_def checkExportedGuardedFields_reports(2) ctx_def)
  have core: "same_core ctx ?c4" by (rule same_core_before_violations)
  have "(\<Union>x \<in> guarded_obs ctx. violations ctx x) \<subseteq> set (diagnostics (checkViolations ?c4))"
    unfolding checkViolations_reports(2) same_core_guarded [OF core] same_core_violations [OF core] by blast
  then show "(\<Union>x \<in> guarded_obs ctx. violations ctx x) \<subseteq> set (diagnostics (laterPhases c))"
    using final unfolding checkInterproceduralViolations_reports(2) by blast
  assume "cs \<in> set (callSites ctx)"
  moreover have "callSites (checkViolations ?c4) = callSites ctx"
    using core by (simp add: same_core_def only_reports_frame [OF checkViolations_reports(1)])
  ultimately show "site_reports (checkViolations ?c4) cs \<subseteq> set (diagnostics (laterPhases c))"
    using final unfolding checkInterproceduralViolations_reports(2) by auto
qed

lemma laterPhases_keeps: "set (diagnostics c) \<subseteq> set (diagnostics (laterPhases c))"
proof -
  have "diagnostics (inferPhases c) = diagnostics c"
    by (simp add: inferPhases_def facts_only_same [OF facts_only_propagate] facts_only_same [OF facts_only_derive])
      (simp add: inferGuards_def)
  moreover have "set (diagnostics (inferPhases c)) \<subseteq> set (diagnostics (reportDeferredUnlockOfUnlocked
      (reportDeferredLockLeaks (checkCallersOfAcquireHelpers (computeReturnsHolding (orderPhases (inferPhases c)))))))"
    using same_core_before_violations [of "inferPhases c"] by (simp add: same_core_def)
  ultimately show ?thesis
    by (auto simp: laterPhases_def reportPhases_def Let_def checkExportedGuardedFields_reports(2)
        checkInterproceduralViolations_reports(2) checkViolations_reports(2))
qed

lemma bad_site_reported:
  assumes "same_core ctx ctx'" and "bad_site ctx cs mfk"
  shows "\<exists>reasons. (csPos cs, MissingLockAtCallSite (mutexFieldKeyName (prog_of ctx) mfk)
    (fnName (func_at (prog_of ctx) (Callee cs))) reasons) \<in> site_reports ctx' cs"
proof -
  have "Callee cs \<in> requirers ctx' mfk" using assms by (simp add: same_core_def bad_site_def)
  moreover have "\<not> shouldSuppressDirectViolation ctx' (Caller cs) mfk"
    using assms by (simp add: shouldSuppressDirectViolation_def same_core_invariant bad_site_def split: option.splits)
  ultimately have "\<exists>reasons. Callee cs \<in> requirers ctx' mfk \<and> (csPos cs,
      MissingLockAtCallSite (mutexFieldKeyName (prog_of ctx) mfk) (fnName (func_at (prog_of ctx) (Callee cs))) reasons)
      \<in> missing cs ctx' mfk"
    using assms(2) by (simp add: missing_def missing_diag_def key_diag_def bad_site_def same_core_invariant [OF assms(1)])
  then show ?thesis
    using assms(2) unfolding site_reports_def bad_site_def same_core_invariant(2) [OF assms(1)] by blast
qed

lemma infer_frame:
  "pass (inferPhases c) = pass c" "callSites (inferPhases c) = callSites c"
  "observations (inferPhases c) = observations c" "guards (inferPhases c) = guards (inferGuards c)"
  by (simp_all add: inferPhases_def facts_only_same [OF facts_only_propagate] facts_only_same [OF facts_only_derive])
    (simp_all add: inferGuards_def)

lemma infer_requires:
  assumes few: "card (Caller ` set (callSites c)) \<le> maxIterations"
    and obs: "(key, guard, obs) \<in> guarded_obs (inferPhases c)" "needs_guard (prog_of c) key guard obs"
  shows "(req_rel (inferPhases c) (guard_key key guard))\<^sup>* `` {obsFunc obs} \<subseteq> requirers (inferPhases c) (guard_key key guard)"
proof -
  let ?d = "deriveInitialRequirements (inferGuards c)" and ?m = "guard_key key guard"
  have "obsFunc obs \<in> requirers ?d ?m"
    using obs by (auto simp: deriveInitialRequirements_spec guarded_obs_def infer_frame inferGuards_def)
  moreover have "requirers (inferPhases c) ?m = requirers (propagateRequirements ?d) ?m"
    by (simp add: inferPhases_def requirers_def factsOf_def)
  moreover have "callSites ?d = callSites c" "pass ?d = pass c"
    by (simp_all add: facts_only_same [OF facts_only_derive]) (simp_all add: inferGuards_def)
  then have "req_rel (inferPhases c) ?m = req_rel ?d ?m" "card (Caller ` set (callSites ?d)) \<le> maxIterations"
    using few by (simp_all add: req_rel_def infer_frame)
  ultimately show ?thesis using propagate_requires [of ?d ?m] by auto
qed

theorem unguarded_access_reported:
  fixes c
  defines "ctx \<equiv> inferPhases c"
  assumes few: "card (Caller ` set (callSites c)) \<le> maxIterations"
    and obs: "(key, guard, obs) \<in> guarded_obs ctx" "needs_guard (prog_of ctx) key guard obs"
    and root: "(obsFunc obs, r) \<in> (req_rel ctx (guard_key key guard))\<^sup>*" "\<not> hasCallers ctx r" "isConcurrent ctx r"
      "\<forall>q. \<not> isSuppressed ctx r q"
    and fields: "Underlying (prog_of ctx) (Named (fk_StructType key)) = Struct fs" "fk_FieldIndex key < length fs"
      "MutexFieldIndex guard < length fs"
  shows "(\<exists>s f m. r = obsFunc obs \<and> (obsPos obs, Violation s f m) \<in> set (diagnostics (laterPhases c))) \<or>
    (\<exists>cs \<in> set (callSites ctx). Caller cs = r \<and> (\<exists>n g reasons.
      (csPos cs, MissingLockAtCallSite n g reasons) \<in> set (diagnostics (laterPhases c))))"
  using root(1)
proof (cases rule: rtranclE)
  case base
  then have "\<not> shouldSuppressDirectViolation ctx (obsFunc obs) (guard_key key guard)"
    using root(2) by (simp add: shouldSuppressDirectViolation_def split: option.splits)
  moreover have "\<not> guard_held guard obs" "\<not> isConstructorLike (prog_of ctx) (obsFunc obs) (fk_StructType key)"
    using obs(2) by (simp_all add: guard_held_def needs_guard_def)
  ultimately have "\<exists>s f m. (obsPos obs, Violation s f m) \<in> violations ctx (key, guard, obs)"
    using root(3, 4) base fields by (auto simp: violations_def field_diag_def)
  then show ?thesis using laterPhases_diagnostics(1) [of c] obs(1) base unfolding ctx_def by blast
next
  case (step g)
  then obtain cs where cs: "cs \<in> set (callSites ctx)" "Callee cs = g" "Caller cs = r"
      "\<not> callerHoldsMutex cs (guard_key key guard)" "\<not> isPrePublicationConstructorCall (prog_of ctx) cs"
    by (auto simp: req_rel_def)
  have "g \<in> requirers ctx (guard_key key guard)"
    using infer_requires [OF few, of key guard obs] obs step(1) by (auto simp: ctx_def infer_frame)
  moreover have "mutexFieldKeyName (prog_of ctx) (guard_key key guard) \<noteq> []"
    using fields by (simp add: mutexFieldKeyName_def guard_key_def)
  ultimately have "bad_site ctx cs (guard_key key guard)"
    using cs root(2, 3, 4) by (simp add: bad_site_def)
  moreover have "same_core ctx (checkViolations (reportDeferredUnlockOfUnlocked (reportDeferredLockLeaks
      (checkCallersOfAcquireHelpers (computeReturnsHolding (orderPhases ctx))))))"
    by (rule same_core_trans [OF same_core_before_violations same_core_reports [OF checkViolations_reports]])
  ultimately show ?thesis
    using bad_site_reported [of ctx] laterPhases_diagnostics(2) [of cs c] cs unfolding ctx_def by blast
qed

end
