(* ===== verification/Walk_Trace.thy ===== *)
theory Walk_Trace
  imports Walk_Sound
begin

text \<open>
  The walk over a package, flattened. On functions whose paths agree, the recursion of \<open>walkBlock\<close>
  (\<open>pkg/analyzer/ssawalk.go\<close>) processes every block that some path reaches exactly once, in the lock
  state of the paths; what it does to the pass context is what the handlers of the instructions do,
  one instruction after the other.
\<close>

section \<open>The blocks that are processed\<close>

definition visit_block :: "ssa_func \<Rightarrow> func \<Rightarrow> nat \<times> lockState \<Rightarrow> passContext \<Rightarrow> passContext" where
  "visit_block f fn v ctx = fst (processBlock ctx fn (Instrs (Blocks f ! fst v)) (snd v))"

lemma walkStep_first_visit:
  assumes "b < length (Blocks f)" and "gm_get (entryStates w) b = None"
    and "walkStep f ctx w (b, frm, ls) = (ctx', w', new)"
  shows "ctx' = visit_block f (wc_fn w) (b, ls) ctx" and "wc_fn w' = wc_fn w"
  using assms by (auto simp: walkStep_def enterBlock_def storeEntry_def visit_block_def split: prod.splits)

lemma walkBlocks_visits:
  assumes "walkBlocks f ctx w pending = Some r"
  shows "paths_agree (prog_of ctx) f \<Longrightarrow> agree_inv (prog_of ctx) f w pending \<Longrightarrow>
    \<exists>vs. fst r = fold (visit_block f (wc_fn w)) vs ctx \<and> distinct (map fst vs) \<and>
      (\<forall>b \<in> fst ` set vs. gm_get (entryStates w) b = None) \<and>
      (\<forall>b s. gm_get (entryStates (snd r)) b = Some s \<longleftrightarrow> gm_get (entryStates w) b = Some s \<or> (b, s) \<in> set vs)"
  using assms
proof (induction rule: walkBlocks_induct)
  case (Nil ctx w)
  then show ?case by (intro exI [of _ "[]"]) simp
next
  case (Cons ctx w call pending ctx' w' new r)
  obtain b frm ls where call: "call = (b, frm, ls)" using prod_cases3 by blast
  have ls: "on_path (prog_of ctx) f b ls" using Cons.prems(2) by (auto simp: call agree_inv_def)
  show ?case
  proof (cases "gm_get (entryStates w) b")
    case (Some st)
    then have "on_path (prog_of ctx) f b st" using Cons.prems(2) by (auto simp: agree_inv_def)
    from walkStep_again [OF Cons.prems(1) ls this Some, of ctx frm] Cons.hyps(1)
    have "ctx' = ctx" "w' = w" "new = []" by (simp_all add: call)
    moreover have "agree_inv (prog_of ctx) f w pending"
      using agree_inv_again [of "prog_of ctx" f w b frm ls pending] Cons.prems(2) Some by (simp add: call)
    ultimately show ?thesis using Cons.IH Cons.prems(1) by simp
  next
    case None
    have b: "b < length (Blocks f)" "ls_ok ls" using ls by (auto simp: on_path_def)
    note st = Cons.hyps(1) [unfolded call]
    note first = walkStep_first [OF b None st] and visit = walkStep_first_visit [OF b(1) None st]
    have "agree_inv (prog_of ctx') f w' (new @ pending)"
      using agree_inv_first [OF Cons.prems(1) _ None first(2, 3, 4)] Cons.prems(2) first(1) by (simp add: call)
    then obtain vs where vs: "fst r = fold (visit_block f (wc_fn w)) vs ctx'" "distinct (map fst vs)"
        "\<forall>c \<in> fst ` set vs. gm_get (entryStates w') c = None"
        "\<forall>c s. gm_get (entryStates (snd r)) c = Some s \<longleftrightarrow> gm_get (entryStates w') c = Some s \<or> (c, s) \<in> set vs"
      using Cons.IH Cons.prems(1) first(1) visit(2) by auto
    have "b \<notin> fst ` set vs" using vs(3) by (auto simp: first(2))
    with vs None show ?thesis
      by (intro exI [of _ "(b, ls) # vs"]) (auto simp: visit(1) first(2) split: if_splits)
  qed
qed

text \<open>Every block that a path reaches is processed once, in the state of the paths to it.\<close>

theorem walk_visits:
  assumes agree: "paths_agree (prog_of ctx) f"
  obtains w vs where "walkBlock f ctx (newWalkContext fn) 0 None newLockState = Some (fold (visit_block f fn) vs ctx, w)"
    and "inconsistentLockReported w = []" and "distinct (map fst vs)"
    and "\<And>b s. (b, s) \<in> set vs \<longleftrightarrow> gm_get (entryStates w) b = Some s"
    and "\<And>b s. lock_path (prog_of ctx) f b s \<Longrightarrow> \<exists>st. (b, st) \<in> set vs \<and> ls_eq st s"
    and "\<And>b st. (b, st) \<in> set vs \<Longrightarrow> on_path (prog_of ctx) f b st"
proof -
  have "on_path (prog_of ctx) f 0 newLockState"
    using agree path_start by (fastforce simp: on_path_def paths_agree_def blocks_ok_def ls_eq_def)
  then have inv: "agree_inv (prog_of ctx) f (newWalkContext fn) [(0, None, newLockState)]"
    by (simp add: agree_inv_def newWalkContext_def)
  obtain ctx' w where w: "walkBlock f ctx (newWalkContext fn) 0 None newLockState = Some (ctx', w)"
      "inconsistentLockReported w = []"
      "\<And>b s. lock_path (prog_of ctx) f b s \<Longrightarrow> \<exists>st. gm_get (entryStates w) b = Some st \<and> ls_eq st s"
    using walk_exact [OF agree, of fn] by metis
  obtain c w' where w': "walkBlocks f ctx (newWalkContext fn) [(0, None, newLockState)] = Some (c, w')"
      "agree_inv (prog_of ctx) f w' []"
    using walkBlocks_agree [OF agree inv] by blast
  from w(1) w'(1) have "w' = w" by (simp add: walkBlock_def)
  with w'(2) have path: "gm_get (entryStates w) b = Some st \<Longrightarrow> on_path (prog_of ctx) f b st" for b st
    by (simp add: agree_inv_def)
  have "\<exists>vs. ctx' = fold (visit_block f fn) vs ctx \<and> distinct (map fst vs) \<and>
      (\<forall>b s. gm_get (entryStates w) b = Some s \<longleftrightarrow> (b, s) \<in> set vs)"
    using walkBlocks_visits [OF w(1) [unfolded walkBlock_def] agree inv] by (auto simp: newWalkContext_def)
  then obtain vs where vs: "ctx' = fold (visit_block f fn) vs ctx" "distinct (map fst vs)"
      "\<And>b s. (b, s) \<in> set vs \<longleftrightarrow> gm_get (entryStates w) b = Some s"
    by blast
  show thesis using that [OF w(1, 2) [unfolded vs(1)] vs(2, 3)] w(3) path vs(3) by blast
qed

section \<open>The instructions that are processed\<close>

fun instr_trace :: "prog \<Rightarrow> ssa_instr list \<Rightarrow> lockState \<Rightarrow> (ssa_instr \<times> lockState) list" where
  "instr_trace P [] s = []"
| "instr_trace P (i # is) s = (i, s) # instr_trace P is (instr_state P i s)"

lemma instr_trace_iff:
  "(i, s) \<in> set (instr_trace P is s0) \<longleftrightarrow> (\<exists>pre post. is = pre @ i # post \<and> s = fold (instr_state P) pre s0)"
proof (induction "is" arbitrary: s0)
  case (Cons j js)
  have "(\<exists>pre post. j # js = pre @ i # post \<and> s = fold (instr_state P) pre s0) \<longleftrightarrow>
      (i = j \<and> s = s0) \<or> (\<exists>pre post. js = pre @ i # post \<and> s = fold (instr_state P) pre (instr_state P j s0))"
    by (auto simp: Cons_eq_append_conv) (metis fold_simps(2))
  with Cons show ?case by auto
qed simp

lemma instr_trace_eq:
  assumes "ls_eq s0 t0" and "(i, s) \<in> set (instr_trace P is s0)"
  shows "\<exists>t. (i, t) \<in> set (instr_trace P is t0) \<and> ls_eq s t"
  using assms
proof (induction "is" arbitrary: s0 t0)
  case (Cons j js)
  have "ls_eq (instr_state P j s0) (instr_state P j t0)"
    using Cons.prems(1) by (auto simp: ls_eq_def intro: instr_state_mono)
  with Cons show ?case by auto
qed simp

lemma ls_ok_trace: "ls_ok s0 \<Longrightarrow> (i, s) \<in> set (instr_trace P is s0) \<Longrightarrow> ls_ok s"
  by (induction "is" arbitrary: s0) (auto intro: ls_ok_instr_state)

definition handle :: "func \<times> ssa_instr \<times> lockState \<Rightarrow> passContext \<Rightarrow> passContext" where
  "handle e ctx = (case e of (fn, i, s) \<Rightarrow> fst (processInstruction ctx fn i s))"

lemma handle_pass [simp]: "pass (handle e ctx) = pass ctx"
  by (simp add: handle_def split: prod.splits)

lemma fold_handle_pass [simp]: "pass (fold handle tr ctx) = pass ctx"
  by (induction tr arbitrary: ctx) simp_all

lemma processBlock_trace:
  "fst (processBlock ctx fn is s) = fold handle (map (Pair fn) (instr_trace (prog_of ctx) is s)) ctx"
proof (induction ctx fn "is" s rule: processBlock.induct)
  case (2 ctx fn i "is" ls)
  obtain c l where i: "processInstruction ctx fn i ls = (c, l)" by fastforce
  then have "pass c = pass ctx" "l = instr_state (prog_of ctx) i ls"
    using processInstruction_pass [of ctx fn i ls] processInstruction_state [of ctx fn i ls] by simp_all
  with 2 [OF i [symmetric]] show ?case by (simp add: i handle_def)
qed simp

text \<open>Some path of the function reaches the instruction, in a lock state.\<close>

definition reaches :: "prog \<Rightarrow> ssa_func \<Rightarrow> ssa_instr \<Rightarrow> lockState \<Rightarrow> bool" where
  "reaches P f i s \<longleftrightarrow> (\<exists>b s0 pre post. lock_path P f b s0 \<and> b < length (Blocks f) \<and>
    Instrs (Blocks f ! b) = pre @ i # post \<and> s = fold (instr_state P) pre s0)"

lemma reaches_trace:
  "reaches P f i s \<longleftrightarrow>
    (\<exists>b s0. lock_path P f b s0 \<and> b < length (Blocks f) \<and> (i, s) \<in> set (instr_trace P (Instrs (Blocks f ! b)) s0))"
  unfolding reaches_def instr_trace_iff by blast

lemma reaches_instr: "reaches P f i s \<Longrightarrow> \<exists>b \<in> set (Blocks f). i \<in> set (Instrs b)"
  unfolding reaches_def by (metis in_set_conv_decomp nth_mem)

definition visits_trace :: "prog \<Rightarrow> func \<Rightarrow> (nat \<times> lockState) list \<Rightarrow> (func \<times> ssa_instr \<times> lockState) list" where
  "visits_trace P fn vs =
    concat (map (\<lambda>(b, s). map (Pair fn) (instr_trace P (Instrs (Blocks (func_at P fn) ! b)) s)) vs)"

lemma fold_visits: "fold (visit_block (func_at (prog_of ctx) fn) fn) vs ctx = fold handle (visits_trace (prog_of ctx) fn vs) ctx"
proof -
  have "fold (visit_block (func_at P fn) fn) vs c = fold handle (visits_trace P fn vs) c" if "prog_of c = P" for P c
    using that
    by (induction vs arbitrary: c) (auto simp: visits_trace_def visit_block_def processBlock_trace)
  then show ?thesis by blast
qed

lemma single_block_path:
  assumes "Blocks f = [b]" and "Succs b = []" and "lock_path P f n s"
  shows "n = 0 \<and> s = newLockState"
  using assms(3) by induction (use assms(1, 2) in auto)

lemma single_block_agrees:
  assumes "Blocks f = [b]" and "Succs b = []"
  shows "paths_agree P f"
proof -
  have "ls_eq s s'" if "lock_path P f n s" "lock_path P f n s'" for n s s'
    using single_block_path [OF assms that(1)] single_block_path [OF assms that(2)] by (simp add: ls_eq_def)
  then show ?thesis using assms by (simp add: paths_agree_def blocks_ok_def)
qed

definition agreeing :: "prog \<Rightarrow> func \<Rightarrow> bool" where
  "agreeing P fn \<longleftrightarrow> Blocks (func_at P fn) = [] \<or> paths_agree P (func_at P fn)"

text \<open>A list of instructions with their lock states that covers the paths of some functions: nothing else is
  in it, and nothing is missing, up to what two states on the same path claim.\<close>

definition covers :: "prog \<Rightarrow> func set \<Rightarrow> (func \<times> ssa_instr \<times> lockState) list \<Rightarrow> bool" where
  "covers P F tr \<longleftrightarrow>
    (\<forall>fn i s. (fn, i, s) \<in> set tr \<longrightarrow> fn \<in> F \<and> ls_ok s \<and> (\<exists>t. reaches P (func_at P fn) i t \<and> ls_eq s t)) \<and>
    (\<forall>fn i t. fn \<in> F \<longrightarrow> reaches P (func_at P fn) i t \<longrightarrow> (\<exists>s. (fn, i, s) \<in> set tr \<and> ls_eq s t))"

lemma covers_append: "covers P F tr \<Longrightarrow> covers P G tr' \<Longrightarrow> covers P (F \<union> G) (tr @ tr')"
  by (auto simp: covers_def) blast+

lemma walkFunction_trace:
  assumes "agreeing (prog_of ctx) fn"
  shows "\<exists>tr. walkFunction ctx fn = Some (fold handle tr ctx) \<and> covers (prog_of ctx) {fn} tr"
proof (cases "Blocks (func_at (prog_of ctx) fn) = []")
  case True
  then show ?thesis
    by (intro exI [of _ "[]"]) (simp add: walkFunction_def covers_def reaches_def)
next
  case False
  let ?P = "prog_of ctx" and ?f = "func_at (prog_of ctx) fn"
  have agree: "paths_agree ?P ?f" using assms False by (simp add: agreeing_def)
  obtain w vs where w: "walkBlock ?f ctx (newWalkContext fn) 0 None newLockState =
        Some (fold (visit_block ?f fn) vs ctx, w)"
      and vs: "\<And>b s. lock_path ?P ?f b s \<Longrightarrow> \<exists>st. (b, st) \<in> set vs \<and> ls_eq st s"
        "\<And>b st. (b, st) \<in> set vs \<Longrightarrow> on_path ?P ?f b st"
    using walk_visits [OF agree, of fn] by metis
  let ?tr = "visits_trace ?P fn vs"
  have mem: "(g, i, s) \<in> set ?tr \<longleftrightarrow> g = fn \<and> (\<exists>b s0. (b, s0) \<in> set vs \<and> (i, s) \<in> set (instr_trace ?P (Instrs (Blocks ?f ! b)) s0))"
    for g i s by (force simp: visits_trace_def)
  have "\<exists>t. reaches ?P ?f i t \<and> ls_eq s t" "ls_ok s"
    if "(b, s0) \<in> set vs" "(i, s) \<in> set (instr_trace ?P (Instrs (Blocks ?f ! b)) s0)" for b s0 i s
    using vs(2) [OF that(1)] that(2) instr_trace_eq [OF _ that(2)] ls_ok_trace
    unfolding on_path_def reaches_trace by blast+
  moreover have "\<exists>s. (fn, i, s) \<in> set ?tr \<and> ls_eq s t" if "reaches ?P ?f i t" for i t
    using that vs(1) instr_trace_eq unfolding reaches_trace mem by (meson ls_eq_sym)
  ultimately have "covers ?P {fn} ?tr" unfolding covers_def mem by blast
  then show ?thesis using w False by (intro exI [of _ ?tr]) (simp add: walkFunction_def fold_visits)
qed

theorem collect_trace:
  assumes "\<forall>fn \<in> set (srcFuncs ctx). agreeing (prog_of ctx) fn"
  obtains tr where "collectObservations ctx = Some (fold handle tr ctx)"
    and "covers (prog_of ctx) (set (srcFuncs ctx)) tr"
proof -
  let ?f = "\<lambda>fn r. Option.bind r (\<lambda>ctx. walkFunction ctx fn)"
  have "\<exists>tr. fold ?f fns (Some c) = Some (fold handle tr c) \<and> covers P (set fns) tr"
    if "\<forall>fn \<in> set fns. agreeing P fn" "prog_of c = P" for fns c P
    using that
  proof (induction fns arbitrary: c)
    case Nil
    show ?case by (intro exI [of _ "[]"]) (simp add: covers_def)
  next
    case (Cons fn fns)
    then obtain tr where tr: "walkFunction c fn = Some (fold handle tr c)" "covers P {fn} tr"
      using walkFunction_trace [of c fn] by auto
    have "prog_of (fold handle tr c) = P" using Cons.prems by simp
    from Cons.IH [OF _ this] Cons.prems(1)
    obtain tr' where "fold ?f fns (Some (fold handle tr c)) = Some (fold handle tr' (fold handle tr c))"
        "covers P (set fns) tr'" by auto
    with tr show ?case using covers_append [OF tr(2)] by (intro exI [of _ "tr @ tr'"]) simp
  qed
  with assms that show thesis unfolding collectObservations_def by blast
qed

end
