(* ===== verification/Walk_Spec.thy ===== *)
theory Walk_Spec
  imports Reporter Walk_Sound
begin

text \<open>
  What single instructions add to the pass context during the walk of \<open>pkg/analyzer/ssawalk.go\<close>:
  diagnostics and lock-order edges at an acquisition, candidates at an unlock and at a return,
  observations at an access.
\<close>

section \<open>Locking\<close>

text \<open>The diagnostic for locking a mutex that is already held: \<open>held\<close> is the mode it is held in.\<close>

definition again_diagnostic :: "bool \<Rightarrow> bool \<Rightarrow> string \<Rightarrow> diagnostic" where
  "again_diagnostic exclusive heldExclusive =
    (if heldExclusive then DoubleLock else if exclusive then LockUpgradeAttempt else RecursiveRLock)"

lemma acquire_reports:
  "set (diagnostics (fst (checkAndRecordLockAcquire ctx fn p ref e ls))) = set (diagnostics ctx) \<union>
    (case gm_get (held ls) ref of None \<Rightarrow> {}
     | Some h \<Rightarrow> lock_diag ctx fn p ref (again_diagnostic e (hl_exclusive h)))"
  by (auto simp: checkAndRecordLockAcquire_def checkHeldAgain_def recordLockAcquisition_def addEdges_def Let_def
      again_diagnostic_def reportDoubleLock_def reportRecursiveRLock_def reportLockUpgradeAttempt_def
      report_lock_reports split: option.splits)

lemma checkHeldAgain_graph: "orderGraph (checkHeldAgain ctx fn p ref e ls) = orderGraph ctx"
  by (auto simp: checkHeldAgain_def only_reports_frame [OF only_reports_walk(1)]
      only_reports_frame [OF only_reports_walk(2)] only_reports_frame [OF only_reports_walk(3)] split: option.splits)

text \<open>The edges from every other held mutex to the acquired one.\<close>

definition new_edges :: "prog \<Rightarrow> lockState \<Rightarrow> lockRef \<Rightarrow> (mutexFieldKey \<times> mutexFieldKey) set" where
  "new_edges P ls ref = {(h, a). lockRefToMutexFieldKey P ref = Some a \<and>
    (\<exists>r \<in> held_keys ls. r \<noteq> ref \<and> lockRefToMutexFieldKey P r = Some h)}"

lemma orderEdges_rel:
  "(\<lambda>e. (edgeFrom e, edgeTo e)) ` set (orderEdges P fn p ref refs) =
    {(h, a). lockRefToMutexFieldKey P ref = Some a \<and> (\<exists>r \<in> set refs. r \<noteq> ref \<and> lockRefToMutexFieldKey P r = Some h)}"
  by (force simp: orderEdges_def split: option.splits if_splits)

lemma acquire_edges:
  assumes "graph_ok (orderGraph ctx)"
  shows "graph_rel (orderGraph (fst (checkAndRecordLockAcquire ctx fn p ref e ls))) =
    graph_rel (orderGraph ctx) \<union> new_edges (prog_of ctx) ls ref"
proof -
  let ?c = "checkHeldAgain ctx fn p ref e ls"
  have graph: "orderGraph (recordLockAcquisition c fn ref) = orderGraph c" for c
    by (simp add: recordLockAcquisition_def split: option.splits)
  show ?thesis
    using assms unfolding checkAndRecordLockAcquire_def Let_def fst_conv graph
    by (subst addEdges_rel(2))
      (auto simp: checkHeldAgain_graph orderEdges_rel new_edges_def held_keys_def)
qed

section \<open>Unlocking and returning\<close>

lemma unlock_candidates:
  "unlockOfUnlockedCandidates (fst (checkAndRecordUnlock ctx fn p ref e ls)) =
    unlockOfUnlockedCandidates ctx @
      (if ref \<in> held_keys ls then [] else [\<lparr>uuc_Fn = fn, uuc_Pos = p, uuc_Ref = ref\<rparr>])"
proof -
  have "unlockOfUnlockedCandidates (recordRelease c fn ref) = unlockOfUnlockedCandidates c" for c
    by (simp add: recordRelease_def split: option.splits)
  then show ?thesis
    by (auto simp: checkAndRecordUnlock_def Let_def held_keys_iff only_reports_frame [OF only_reports_walk(4)]
        split: option.splits)
qed

lemma return_candidates:
  "set (gm_slice (lockLeakCandidates (checkReturnWithHeldLocks ctx fn p ls)) q) =
    (if q = p then {\<lparr>llc_Fn = fn, llc_Pos = p, llc_Ref = ref, llc_AcquirePos = hl_pos hl\<rparr> |ref hl.
        gm_get (held ls) ref = Some hl \<and> ref \<notin> set (deferredUnlocks ls)}
     else set (gm_slice (lockLeakCandidates ctx) q))"
proof -
  let ?cand = "\<lambda>ref. case gm_get (held ls) ref of None \<Rightarrow> []
    | Some hl \<Rightarrow> if ref \<in> set (deferredUnlocks ls) then []
        else [\<lparr>llc_Fn = fn, llc_Pos = p, llc_Ref = ref, llc_AcquirePos = hl_pos hl\<rparr>]"
  let ?cands = "concat (map ?cand (shuffle (rangeOrder (pass ctx) ''checkReturnWithHeldLocks'' p) (gm_keys (held ls))))"
  have "set ?cands = {\<lparr>llc_Fn = fn, llc_Pos = p, llc_Ref = ref, llc_AcquirePos = hl_pos hl\<rparr> |ref hl.
      gm_get (held ls) ref = Some hl \<and> ref \<notin> set (deferredUnlocks ls)}"
    by (force simp: gm_keys_get split: option.splits if_splits)
  moreover have "gm_slice (lockLeakCandidates (checkReturnWithHeldLocks ctx fn p ls)) q =
      (if q = p then ?cands else gm_slice (lockLeakCandidates ctx) q)"
    unfolding checkReturnWithHeldLocks_def Let_def by (auto simp: gm_slice_def split: option.splits)
  ultimately show ?thesis by simp
qed

section \<open>Branches that disagree\<close>

lemma set_diff:
  "set (fst (diff c a b)) = held_keys a - held_keys b" "set (snd (diff c a b)) = held_keys b - held_keys a"
  by (auto simp: diff_def Let_def held_keys_def gm_keys_get)

lemma report_inconsistent_set:
  "set (diagnostics (report_inconsistent ctx p refs seen)) = set (diagnostics ctx) \<union>
    {(p, InconsistentLockState (lockRefName (prog_of ctx) r)) |r. r \<in> set refs - set seen \<and> lockRefName (prog_of ctx) r \<noteq> []}"
proof (induction ctx p refs seen rule: report_inconsistent.induct)
  case (2 ctx p ref refs seen)
  then show ?case by (cases "ref \<in> set seen"; cases "lockRefName (prog_of ctx) ref = []") (auto simp: Let_def)
qed simp

lemma inconsistent_reports:
  "set (diagnostics (reportInconsistentLockState ctx fn block a b)) = set (diagnostics ctx) \<union>
    {(blockPos block, InconsistentLockState (lockRefName (prog_of ctx) r)) |r.
      r \<in> (held_keys a - held_keys b) \<union> (held_keys b - held_keys a) \<and> lockRefName (prog_of ctx) r \<noteq> [] \<and>
      IsValid (blockPos block) \<and> \<not> isSuppressed ctx fn (blockPos block)}"
proof -
  obtain oa ob where d: "diff (rangeOrder (pass ctx) ''diff'') a b = (oa, ob)" by fastforce
  then have "set (oa @ ob) = (held_keys a - held_keys b) \<union> (held_keys b - held_keys a)"
    using set_diff [of "rangeOrder (pass ctx) ''diff''" a b] by simp
  then show ?thesis by (auto simp: reportInconsistentLockState_def d Let_def report_inconsistent_set)
qed

section \<open>Accesses\<close>

lemma addObservation_observed:
  "set (observedAt ctx) \<subseteq> set (observedAt (addObservation ctx fn isRead p ls acc))"
  "\<lparr>ok_field = \<lparr>fk_StructType = snd (snd acc), fk_FieldIndex = fst (snd acc)\<rparr>, ok_pos = p, ok_isRead = isRead\<rparr>
    \<in> set (observedAt (addObservation ctx fn isRead p ls acc))"
  by (auto simp: addObservation_def Let_def split: prod.splits)

lemma fold_addObservation_observed:
  "set (observedAt ctx) \<subseteq> set (observedAt (fold (\<lambda>acc ctx. addObservation ctx fn isRead p ls acc) accs ctx))"
proof (induction accs arbitrary: ctx)
  case (Cons acc accs)
  have "set (observedAt ctx) \<subseteq> set (observedAt (addObservation ctx fn isRead p ls acc))"
    by (rule addObservation_observed(1))
  also note Cons.IH
  finally show ?case by simp
qed simp

lemma recordAncestorObservations_observed:
  "set (observedAt ctx) \<subseteq> set (observedAt (recordAncestorObservations ctx fn x isRead p ls))"
  unfolding recordAncestorObservations_def by (rule fold_addObservation_observed)

text \<open>An access that has been seen is not recorded again, whatever is held then.\<close>

lemma processAccess_once:
  "processAccess (processAccess ctx fn addr isRead p ls) fn' addr isRead p ls' = processAccess ctx fn addr isRead p ls"
proof (cases "resolveFieldAccess (prog_of ctx) addr")
  case None
  then show ?thesis by (simp add: processAccess_def)
next
  case (Some acc)
  obtain base i n where acc: "acc = (base, i, n)" using prod_cases3 by blast
  let ?key = "\<lparr>ok_field = \<lparr>fk_StructType = n, fk_FieldIndex = i\<rparr>, ok_pos = p, ok_isRead = isRead\<rparr>"
  let ?c = "processAccess ctx fn addr isRead p ls"
  show ?thesis
  proof (cases "observable (prog_of ctx) acc")
    case True
    have "?key \<in> set (observedAt (addObservation ctx fn isRead p ls (base, i, n)))"
      using addObservation_observed(2) [of "(base, i, n)" p isRead ctx fn ls] by simp
    then have "?key \<in> set (observedAt ?c)"
      using True Some
      by (auto simp: processAccess_def Let_def acc split: value_kind.splits
          intro: subsetD [OF recordAncestorObservations_observed])
    with True Some show ?thesis by (subst processAccess_def) (simp add: Let_def acc)
  next
    case False
    with Some show ?thesis by (simp add: processAccess_def acc)
  qed
qed

section \<open>Functions of one block\<close>

lemma walkFunction_single:
  assumes "Blocks (func_at (prog_of ctx) fn) = [b]" and "Succs b = []"
  shows "walkFunction ctx fn = Some (fst (processBlock ctx fn (Instrs b) newLockState))"
proof -
  let ?f = "func_at (prog_of ctx) fn"
  obtain c ls where "processBlock ctx fn (Instrs b) newLockState = (c, ls)" by fastforce
  then have "\<exists>w'. walkStep ?f ctx (newWalkContext fn) (0, None, newLockState) = (c, w', [])"
    using assms by (simp add: walkStep_def enterBlock_def newWalkContext_def)
  then show ?thesis
    using assms \<open>processBlock ctx fn (Instrs b) newLockState = (c, ls)\<close>
    by (auto simp: walkFunction_def walkBlock_def walkBlocks_Cons)
qed

end
