(* ===== verification/Walk_Effects.thy ===== *)
theory Walk_Effects
  imports Walk_Trace Walk_Spec
begin

text \<open>
  What the handlers of \<open>pkg/analyzer/ssawalk.go\<close> do to the pass context, by instruction: an access adds
  observations, a call locks, unlocks or is recorded as a call site, an acquisition adds lock-order
  edges, an unlock of a mutex that is not held adds a candidate. Everything else of these parts of the
  context stays.
\<close>

section \<open>Observations\<close>

text \<open>The field accesses of an instruction: the field itself first, then the fields it lies in.\<close>

definition accesses :: "prog \<Rightarrow> val \<Rightarrow> (val \<times> nat \<times> named) list" where
  "accesses P addr =
    (case resolveFieldAccess P addr of
       None \<Rightarrow> []
     | Some acc \<Rightarrow>
         if \<not> observable P acc then []
         else acc # (case kind_of P addr of FieldAddr x i \<Rightarrow> ancestor_chain P x [] | _ \<Rightarrow> []))"

fun access_addr :: "ssa_instr \<Rightarrow> (pos \<times> bool \<times> val) option" where
  "access_addr (IStore p addr v) = Some (p, False, addr)"
| "access_addr (IUnOp p x) = Some (p, True, x)"
| "access_addr i = None"

definition acc_key :: "val \<times> nat \<times> named \<Rightarrow> fieldKey" where
  "acc_key acc = \<lparr>fk_StructType = snd (snd acc), fk_FieldIndex = fst (snd acc)\<rparr>"

definition obs_of :: "func \<Rightarrow> bool \<Rightarrow> pos \<Rightarrow> lockState \<Rightarrow> val \<times> nat \<times> named \<Rightarrow> observation" where
  "obs_of fn isRead p s acc =
    \<lparr>SameBaseMutexFields = sameBaseMutexFields (fst acc) s, IsRead = isRead, obsFunc = fn, obsPos = p\<rparr>"

lemma addObservation_obs:
  "ob \<in> set (gm_slice (observations (addObservation ctx fn isRead p s acc)) key) \<Longrightarrow>
    ob \<in> set (gm_slice (observations ctx) key) \<or> key = acc_key acc \<and> ob = obs_of fn isRead p s acc"
  by (auto simp: addObservation_def Let_def acc_key_def obs_of_def gm_slice_append split: prod.splits if_splits)

lemma fold_addObservation_obs:
  "ob \<in> set (gm_slice (observations (fold (\<lambda>acc ctx. addObservation ctx fn isRead p s acc) accs ctx)) key) \<Longrightarrow>
    ob \<in> set (gm_slice (observations ctx) key) \<or> (\<exists>acc \<in> set accs. key = acc_key acc \<and> ob = obs_of fn isRead p s acc)"
proof (induction accs arbitrary: ctx)
  case (Cons acc accs)
  then show ?case using addObservation_obs [of ob ctx fn isRead p s acc key] by fastforce
qed simp

lemma processAccess_cases:
  "processAccess ctx fn addr isRead p s = ctx \<or>
    processAccess ctx fn addr isRead p s =
      fold (\<lambda>acc ctx. addObservation ctx fn isRead p s acc) (accesses (prog_of ctx) addr) ctx"
proof (cases "resolveFieldAccess (prog_of ctx) addr")
  case None
  then show ?thesis by (simp add: processAccess_def)
next
  case (Some acc)
  obtain base i n where acc: "acc = (base, i, n)" using prod_cases3 by blast
  show ?thesis
    unfolding processAccess_def accesses_def Let_def Some acc recordAncestorObservations_def
    by (cases "kind_of (prog_of ctx) addr") (simp_all add: record_frame)
qed

lemma processAccess_obs:
  assumes "ob \<in> set (gm_slice (observations (processAccess ctx fn addr isRead p s)) key)"
  shows "ob \<in> set (gm_slice (observations ctx) key) \<or>
    (\<exists>acc \<in> set (accesses (prog_of ctx) addr). key = acc_key acc \<and> ob = obs_of fn isRead p s acc)"
  using processAccess_cases [of ctx fn addr isRead p s] assms fold_addObservation_obs by metis

text \<open>What the steps of the handlers leave alone.\<close>

lemma step_frame [simp]:
  "observations (recordLockAcquisition ctx fn ref) = observations ctx"
  "observedAt (recordLockAcquisition ctx fn ref) = observedAt ctx"
  "callSites (recordLockAcquisition ctx fn ref) = callSites ctx"
  "orderGraph (recordLockAcquisition ctx fn ref) = orderGraph ctx"
  "unlockOfUnlockedCandidates (recordLockAcquisition ctx fn ref) = unlockOfUnlockedCandidates ctx"
  "observations (recordRelease ctx fn ref) = observations ctx"
  "observedAt (recordRelease ctx fn ref) = observedAt ctx"
  "callSites (recordRelease ctx fn ref) = callSites ctx"
  "orderGraph (recordRelease ctx fn ref) = orderGraph ctx"
  "unlockOfUnlockedCandidates (recordRelease ctx fn ref) = unlockOfUnlockedCandidates ctx"
  "observations (addEdges ctx es) = observations ctx"
  "observedAt (addEdges ctx es) = observedAt ctx"
  "callSites (addEdges ctx es) = callSites ctx"
  "unlockOfUnlockedCandidates (addEdges ctx es) = unlockOfUnlockedCandidates ctx"
  "observations (checkReturnWithHeldLocks ctx fn p s) = observations ctx"
  "observedAt (checkReturnWithHeldLocks ctx fn p s) = observedAt ctx"
  "callSites (checkReturnWithHeldLocks ctx fn p s) = callSites ctx"
  "orderGraph (checkReturnWithHeldLocks ctx fn p s) = orderGraph ctx"
  "unlockOfUnlockedCandidates (checkReturnWithHeldLocks ctx fn p s) = unlockOfUnlockedCandidates ctx"
  by (auto simp: recordLockAcquisition_def recordRelease_def addEdges_def checkReturnWithHeldLocks_def Let_def
      split: option.splits)

lemma only_reports_again: "only_reports ctx (checkHeldAgain ctx fn p ref e s)"
  by (auto simp: checkHeldAgain_def split: option.splits)

lemma only_reports_mismatch: "only_reports ctx (checkDeferredUnlockMismatch ctx fn p common s)"
  by (auto simp: checkDeferredUnlockMismatch_def Let_def split: option.splits prod.splits)

lemma lock_frame:
  "observations (fst (checkAndRecordLockAcquire ctx fn p ref e s)) = observations ctx"
  "observedAt (fst (checkAndRecordLockAcquire ctx fn p ref e s)) = observedAt ctx"
  "callSites (fst (checkAndRecordLockAcquire ctx fn p ref e s)) = callSites ctx"
  "unlockOfUnlockedCandidates (fst (checkAndRecordLockAcquire ctx fn p ref e s)) = unlockOfUnlockedCandidates ctx"
  "observations (fst (checkAndRecordUnlock ctx fn p ref e s)) = observations ctx"
  "observedAt (fst (checkAndRecordUnlock ctx fn p ref e s)) = observedAt ctx"
  "callSites (fst (checkAndRecordUnlock ctx fn p ref e s)) = callSites ctx"
  "orderGraph (fst (checkAndRecordUnlock ctx fn p ref e s)) = orderGraph ctx"
  by (simp_all add: checkAndRecordLockAcquire_def checkAndRecordUnlock_def Let_def
      only_reports_frame [OF only_reports_again] split: option.splits)

lemma defer_frame:
  "observations (fst (processInstruction ctx fn (IDefer p common) s)) = observations ctx"
  "observedAt (fst (processInstruction ctx fn (IDefer p common) s)) = observedAt ctx"
  "callSites (fst (processInstruction ctx fn (IDefer p common) s)) = callSites ctx"
  "orderGraph (fst (processInstruction ctx fn (IDefer p common) s)) = orderGraph ctx"
  "unlockOfUnlockedCandidates (fst (processInstruction ctx fn (IDefer p common) s)) = unlockOfUnlockedCandidates ctx"
  by (simp_all add: recordDeferredUnlock_def checkDeferredLockInsteadOfUnlock_def Let_def
      only_reports_frame [OF only_reports_mismatch] split: option.splits prod.splits)

text \<open>A call locks, unlocks, or is recorded.\<close>

definition call_record :: "prog \<Rightarrow> func \<Rightarrow> pos \<Rightarrow> call_common \<Rightarrow> lockState \<Rightarrow> callSiteRecord list" where
  "call_record P fn p common s =
    (if IsInvoke common then []
     else case StaticCallee common of
         None \<Rightarrow> []
       | Some callee \<Rightarrow>
           (case Args common of
              [] \<Rightarrow> []
            | recv # _ \<Rightarrow>
                if isLockMethod (fnName (func_at P callee)) then []
                else [\<lparr>Caller = fn, Callee = callee, csPos = p, HeldByStructType = normalizeLockState P s,
                  ReceiverValue = (if sigRecv (func_at P callee) \<noteq> None then Some recv else None)\<rparr>]))"

lemma processCall_cases:
  "fst (processCall ctx fn p common s) =
    (case call_lock (prog_of ctx) common of
       Some (r, m) \<Rightarrow>
         if isLockAcquire m then fst (checkAndRecordLockAcquire ctx fn p r (isExclusiveLock m) s)
         else fst (checkAndRecordUnlock ctx fn p r (isExclusiveUnlock m) s)
     | None \<Rightarrow> ctx\<lparr>callSites := callSites ctx @ call_record (prog_of ctx) fn p common s\<rparr>)"
proof (cases "IsInvoke common")
  case True
  then show ?thesis
    by (cases "ccMethod common")
      (auto simp: processCall_def call_lock_def call_record_def lockOrUnlock_def split: option.splits)
next
  case False
  then show ?thesis
    by (cases "StaticCallee common"; cases "Args common")
      (auto simp: processCall_def call_lock_def call_record_def lockOrUnlock_def recordCallSite_def Let_def
        split: option.splits)
qed

lemma call_lock_record: "call_lock P common \<noteq> None \<Longrightarrow> call_record P fn p common s = []"
  by (auto simp: call_lock_def call_record_def Let_def split: option.splits list.splits if_splits)

section \<open>The effect of one instruction\<close>

fun instr_calls :: "prog \<Rightarrow> func \<Rightarrow> ssa_instr \<Rightarrow> lockState \<Rightarrow> callSiteRecord list" where
  "instr_calls P fn (ICall p common) s = call_record P fn p common s"
| "instr_calls P fn i s = []"

fun acquires :: "prog \<Rightarrow> ssa_instr \<Rightarrow> lockRef option" where
  "acquires P (ICall p common) =
    (case call_lock P common of Some (r, m) \<Rightarrow> if isLockAcquire m then Some r else None | None \<Rightarrow> None)"
| "acquires P i = None"

fun releases :: "prog \<Rightarrow> ssa_instr \<Rightarrow> (pos \<times> lockRef) option" where
  "releases P (ICall p common) =
    (case call_lock P common of Some (r, m) \<Rightarrow> if isLockAcquire m then None else Some (p, r) | None \<Rightarrow> None)"
| "releases P i = None"

lemma obs_frame [simp]:
  "callSites (addObservation ctx fn isRead p s acc) = callSites ctx"
  "orderGraph (addObservation ctx fn isRead p s acc) = orderGraph ctx"
  "unlockOfUnlockedCandidates (addObservation ctx fn isRead p s acc) = unlockOfUnlockedCandidates ctx"
  by (auto simp: addObservation_def Let_def split: prod.splits)

lemma access_frame [simp]:
  "callSites (processAccess ctx fn addr isRead p s) = callSites ctx"
  "orderGraph (processAccess ctx fn addr isRead p s) = orderGraph ctx"
  "unlockOfUnlockedCandidates (processAccess ctx fn addr isRead p s) = unlockOfUnlockedCandidates ctx"
proof -
  have "callSites (fold (\<lambda>acc ctx. addObservation ctx fn isRead p s acc) accs c) = callSites c"
    "orderGraph (fold (\<lambda>acc ctx. addObservation ctx fn isRead p s acc) accs c) = orderGraph c"
    "unlockOfUnlockedCandidates (fold (\<lambda>acc ctx. addObservation ctx fn isRead p s acc) accs c) =
      unlockOfUnlockedCandidates c" for accs c
    by (induction accs arbitrary: c) simp_all
  then show "callSites (processAccess ctx fn addr isRead p s) = callSites ctx"
    "orderGraph (processAccess ctx fn addr isRead p s) = orderGraph ctx"
    "unlockOfUnlockedCandidates (processAccess ctx fn addr isRead p s) = unlockOfUnlockedCandidates ctx"
    using processAccess_cases [of ctx fn addr isRead p s] by metis+
qed

lemma handle_access:
  "access_addr i = Some (p, isRead, addr) \<Longrightarrow> handle (fn, i, s) ctx = processAccess ctx fn addr isRead p s"
  by (cases i) (auto simp: handle_def processStore_def processRead_def)

lemma handle_no_access:
  assumes "access_addr i = None"
  shows "observations (handle (fn, i, s) ctx) = observations ctx" "observedAt (handle (fn, i, s) ctx) = observedAt ctx"
  using assms
  by (cases i; simp add: handle_def defer_frame lock_frame processCall_cases del: processInstruction.simps(2)
      split: option.splits prod.splits)+

lemma handle_calls: "callSites (handle (fn, i, s) ctx) = callSites ctx @ instr_calls (prog_of ctx) fn i s"
proof (cases i)
  case (ICall p common)
  then show ?thesis
    by (auto simp: handle_def lock_frame processCall_cases call_lock_record split: option.splits prod.splits)
qed (simp_all add: handle_def defer_frame processStore_def processRead_def del: processInstruction.simps(2))

definition instr_unlocks :: "prog \<Rightarrow> func \<Rightarrow> ssa_instr \<Rightarrow> lockState \<Rightarrow> unlockOfUnlockedCandidate list" where
  "instr_unlocks P fn i s =
    (case releases P i of
       Some (p, r) \<Rightarrow> if r \<in> held_keys s then [] else [\<lparr>uuc_Fn = fn, uuc_Pos = p, uuc_Ref = r\<rparr>]
     | None \<Rightarrow> [])"

lemma handle_unlocks:
  "unlockOfUnlockedCandidates (handle (fn, i, s) ctx) =
    unlockOfUnlockedCandidates ctx @ instr_unlocks (prog_of ctx) fn i s"
proof (cases i)
  case (ICall p common)
  then show ?thesis
    by (auto simp: handle_def instr_unlocks_def lock_frame unlock_candidates processCall_cases
        split: option.splits prod.splits)
qed (simp_all add: handle_def instr_unlocks_def defer_frame processStore_def processRead_def
    del: processInstruction.simps(2))

lemma handle_graph:
  assumes "graph_ok (orderGraph ctx)"
  shows "graph_ok (orderGraph (handle (fn, i, s) ctx))"
    and "graph_rel (orderGraph (handle (fn, i, s) ctx)) = graph_rel (orderGraph ctx) \<union>
      (case acquires (prog_of ctx) i of Some r \<Rightarrow> new_edges (prog_of ctx) s r | None \<Rightarrow> {})"
proof -
  have ok: "graph_ok (orderGraph (fst (checkAndRecordLockAcquire ctx fn p ref e s)))" for p ref e
    using assms unfolding checkAndRecordLockAcquire_def Let_def fst_conv step_frame
    by (intro addEdges_rel(1)) (simp add: only_reports_frame [OF only_reports_again])
  show "graph_ok (orderGraph (handle (fn, i, s) ctx))"
    using assms ok
    by (cases i) (auto simp: handle_def defer_frame lock_frame processCall_cases processStore_def processRead_def
        simp del: processInstruction.simps(2) split: option.splits prod.splits)
  show "graph_rel (orderGraph (handle (fn, i, s) ctx)) = graph_rel (orderGraph ctx) \<union>
      (case acquires (prog_of ctx) i of Some r \<Rightarrow> new_edges (prog_of ctx) s r | None \<Rightarrow> {})"
  proof (cases i)
    case (ICall p common)
    then show ?thesis
      using acquire_edges [OF assms]
      by (auto simp: handle_def lock_frame processCall_cases split: option.splits prod.splits)
  qed (simp_all add: handle_def defer_frame processStore_def processRead_def del: processInstruction.simps(2))
qed

end
