(* ===== verification/Walk_Collects.thy ===== *)
theory Walk_Collects
  imports Walk_Effects Walk_Invariant
begin

text \<open>
  What the first phase (\<open>collectObservations\<close> of \<open>pkg/analyzer/ssawalk.go\<close>) collects on a package whose
  functions have agreeing paths, in terms of the paths alone: the observations, the call sites, the
  lock-order edges and the unlocks of mutexes that are not held.
\<close>

section \<open>The effect of the walk over a package\<close>

lemma ls_eq_held: "ls_eq s t \<Longrightarrow> held_keys s = held_keys t"
  by (auto simp: ls_eq_def ls_le_def)

lemma fold_handle_calls:
  "callSites (fold handle tr ctx) = callSites ctx @ concat (map (\<lambda>(fn, i, s). instr_calls (prog_of ctx) fn i s) tr)"
  by (induction tr arbitrary: ctx) (auto simp: handle_calls)

lemma fold_handle_unlocks:
  "unlockOfUnlockedCandidates (fold handle tr ctx) = unlockOfUnlockedCandidates ctx @
    concat (map (\<lambda>(fn, i, s). instr_unlocks (prog_of ctx) fn i s) tr)"
  by (induction tr arbitrary: ctx) (auto simp: handle_unlocks)

lemma fold_handle_graph:
  "graph_ok (orderGraph ctx) \<Longrightarrow> graph_ok (orderGraph (fold handle tr ctx)) \<and>
    graph_rel (orderGraph (fold handle tr ctx)) = graph_rel (orderGraph ctx) \<union>
      {ha. \<exists>fn i s r. (fn, i, s) \<in> set tr \<and> acquires (prog_of ctx) i = Some r \<and> ha \<in> new_edges (prog_of ctx) s r}"
proof (induction tr arbitrary: ctx)
  case (Cons e tr)
  obtain fn i s where e: "e = (fn, i, s)" using prod_cases3 by blast
  note step = handle_graph [OF Cons.prems, of fn i s, folded e]
  show ?case
    using Cons.IH [OF step(1)] unfolding fold_simps step(2) handle_pass
    by (auto simp: e split: option.splits)
qed simp

definition obs_from :: "prog \<Rightarrow> (func \<times> ssa_instr \<times> lockState) set \<Rightarrow> fieldKey \<Rightarrow> observation \<Rightarrow> bool" where
  "obs_from P T key ob \<longleftrightarrow> (\<exists>fn i s p isRead addr acc. (fn, i, s) \<in> T \<and> access_addr i = Some (p, isRead, addr) \<and>
    acc \<in> set (accesses P addr) \<and> key = acc_key acc \<and> ob = obs_of fn isRead p s acc)"

lemma fold_handle_obs:
  "ob \<in> set (gm_slice (observations (fold handle tr ctx)) key) \<Longrightarrow>
    ob \<in> set (gm_slice (observations ctx) key) \<or> obs_from (prog_of ctx) (set tr) key ob"
proof (induction tr arbitrary: ctx)
  case (Cons e tr)
  obtain fn i s where e: "e = (fn, i, s)" using prod_cases3 by blast
  have mono: "obs_from P T key ob \<Longrightarrow> T \<subseteq> U \<Longrightarrow> obs_from P U key ob" for P T U
    unfolding obs_from_def by blast
  have "ob \<in> set (gm_slice (observations (handle e ctx)) key) \<or> obs_from (prog_of ctx) (set tr) key ob"
    using Cons.IH [of "handle e ctx"] Cons.prems by simp
  moreover have "ob \<in> set (gm_slice (observations ctx) key) \<or> obs_from (prog_of ctx) {e} key ob"
    if "ob \<in> set (gm_slice (observations (handle e ctx)) key)"
  proof (cases "access_addr i")
    case None
    then show ?thesis using that by (simp add: e handle_no_access)
  next
    case (Some a)
    obtain p isRead addr where a: "a = (p, isRead, addr)" using prod_cases3 by blast
    then show ?thesis using that processAccess_obs [of ob ctx fn addr isRead p s key] Some
      unfolding e handle_access [OF Some [unfolded a]] obs_from_def by blast
  qed
  ultimately show ?case using mono [of _ "{e}" "set (e # tr)"] mono [of _ "set tr" "set (e # tr)"] by auto
qed simp

section \<open>Nothing is missing\<close>

definition seen_recorded :: "passContext \<Rightarrow> bool" where
  "seen_recorded ctx \<longleftrightarrow> (\<forall>k \<in> set (observedAt ctx). \<exists>ob \<in> set (gm_slice (observations ctx) (ok_field k)).
    obsPos ob = ok_pos k \<and> IsRead ob = ok_isRead k)"

interpretation seen: walk_inv seen_recorded
proof
  fix ctx :: passContext and fn callee p ls recv block sa sb ref d es cs ts acc isRead
  assume seen: "seen_recorded ctx"
  then show "seen_recorded (report_lock ctx fn p ref d)"
    by (simp add: seen_recorded_def only_reports_frame [OF only_reports_lock])
  show "seen_recorded (reportInconsistentLockState ctx fn block sa sb)"
    using seen by (simp add: seen_recorded_def only_reports_frame [OF only_reports_inconsistent])
  show "seen_recorded (recordLockAcquisition ctx fn ref)" "seen_recorded (recordRelease ctx fn ref)"
    "seen_recorded (addEdges ctx es)" "seen_recorded (checkReturnWithHeldLocks ctx fn p ls)"
    "seen_recorded (ctx\<lparr>unlockOfUnlockedCandidates := cs\<rparr>)" "seen_recorded (ctx\<lparr>deferredLockTypoReported := ts\<rparr>)"
    "seen_recorded (recordCallSite ctx fn callee p ls recv)"
    using seen by (simp_all add: seen_recorded_def recordCallSite_def)
  show "seen_recorded (addObservation ctx fn isRead p ls acc)"
    using seen by (auto simp: seen_recorded_def addObservation_def Let_def split: prod.splits)
qed

lemma fold_handle_seen: "seen_recorded ctx \<Longrightarrow> seen_recorded (fold handle tr ctx)"
proof (induction tr arbitrary: ctx)
  case (Cons e tr)
  then show ?case by (simp add: handle_def seen.inv_instruction split: prod.splits)
qed simp

definition acc_seen :: "passContext \<Rightarrow> val \<times> nat \<times> named \<Rightarrow> pos \<Rightarrow> bool \<Rightarrow> bool" where
  "acc_seen ctx acc p isRead \<longleftrightarrow> \<lparr>ok_field = acc_key acc, ok_pos = p, ok_isRead = isRead\<rparr> \<in> set (observedAt ctx)"

lemma handle_seen_mono: "set (observedAt ctx) \<subseteq> set (observedAt (handle (fn, i, s) ctx))"
proof (cases "access_addr i")
  case None
  then show ?thesis by (simp add: handle_no_access)
next
  case (Some a)
  obtain p isRead addr where a: "a = (p, isRead, addr)" using prod_cases3 by blast
  show ?thesis
    unfolding handle_access [OF Some [unfolded a]]
    by (rule processAccess_cases [THEN disjE, of ctx fn addr isRead p s])
      (simp, erule ssubst, rule fold_addObservation_observed)
qed

lemma fold_handle_mono: "set (observedAt ctx) \<subseteq> set (observedAt (fold handle tr ctx))"
proof (induction tr arbitrary: ctx)
  case (Cons e tr)
  then show ?case using handle_seen_mono by (cases e) fastforce
qed simp

lemma processAccess_seen:
  assumes "resolveFieldAccess (prog_of ctx) addr = Some acc" and "observable (prog_of ctx) acc"
  shows "acc_seen (processAccess ctx fn addr isRead p s) acc p isRead"
proof -
  obtain base i n where acc: "acc = (base, i, n)" using prod_cases3 by blast
  let ?c = "addObservation ctx fn isRead p s acc"
  have "acc_seen ?c acc p isRead"
    unfolding acc_seen_def acc_key_def using addObservation_observed(2) by simp
  then show ?thesis
    using assms recordAncestorObservations_observed [of ?c fn _ isRead p s]
    by (auto simp: processAccess_def Let_def acc acc_seen_def acc_key_def split: value_kind.splits)
qed

lemma fold_handle_seen_access:
  assumes "(fn, i, s) \<in> set tr" and "access_addr i = Some (p, isRead, addr)"
    and "resolveFieldAccess (prog_of ctx) addr = Some acc" and "observable (prog_of ctx) acc"
  shows "acc_seen (fold handle tr ctx) acc p isRead"
  using assms
proof (induction tr arbitrary: ctx)
  case (Cons e tr)
  show ?case
  proof (cases "e = (fn, i, s)")
    case True
    have "acc_seen (handle e ctx) acc p isRead"
      using processAccess_seen [OF Cons.prems(3, 4)] unfolding True handle_access [OF Cons.prems(2)] by simp
    then show ?thesis using fold_handle_mono [of "handle e ctx" tr] by (auto simp: acc_seen_def)
  next
    case False
    then show ?thesis using Cons.IH [of "handle e ctx"] Cons.prems by simp
  qed
qed simp

section \<open>What the walk collects, by the paths of the functions\<close>

text \<open>The mutex fields of the struct value \<open>base\<close> that are held.\<close>

definition base_held :: "val \<Rightarrow> lockState \<Rightarrow> nat set" where
  "base_held base s = lr_fieldIndex ` {r \<in> held_keys s. lr_base r = base}"

lemma sameBase_fields:
  assumes "ls_ok s"
  shows "hmf_FieldIndex ` set (sameBaseMutexFields base s) = base_held base s"
proof -
  have "hmf_FieldIndex ` set (sameBaseMutexFields base s) =
      {lr_fieldIndex (hl_ref hl) |k hl. (k, hl) \<in> set (held s) \<and> lr_base (hl_ref hl) = base}"
    unfolding sameBaseMutexFields_def by force
  also have "\<dots> = {lr_fieldIndex k |k hl. gm_get (held s) k = Some hl \<and> lr_base k = base}"
  proof -
    have "(k, hl) \<in> set (held s) \<longleftrightarrow> gm_get (held s) k = Some hl" for k hl
      using assms by (simp add: ls_ok_def gm_get_Some_in)
    then show ?thesis using assms unfolding ls_ok_def by (metis (no_types, opaque_lifting))
  qed
  also have "\<dots> = base_held base s" by (auto simp: base_held_def held_keys_iff)
  finally show ?thesis .
qed

definition accesses_at :: "prog \<Rightarrow> ssa_instr \<Rightarrow> pos \<Rightarrow> bool \<Rightarrow> val \<Rightarrow> fieldKey \<Rightarrow> bool" where
  "accesses_at P i p isRead base key \<longleftrightarrow> (\<exists>addr acc. access_addr i = Some (p, isRead, addr) \<and>
    acc \<in> set (accesses P addr) \<and> fst acc = base \<and> acc_key acc = key)"

lemma accesses_at_instr:
  "accesses_at P i p isRead base key \<Longrightarrow> (\<exists>addr v. i = IStore p addr v \<and> \<not> isRead) \<or> (\<exists>x. i = IUnOp p x \<and> isRead)"
  by (cases i) (auto simp: accesses_at_def)

text \<open>The field that the instruction itself reads or writes, without those it lies in.\<close>

definition field_access :: "prog \<Rightarrow> ssa_instr \<Rightarrow> pos \<Rightarrow> bool \<Rightarrow> val \<Rightarrow> fieldKey \<Rightarrow> bool" where
  "field_access P i p isRead base key \<longleftrightarrow> (\<exists>addr acc. access_addr i = Some (p, isRead, addr) \<and>
    resolveFieldAccess P addr = Some acc \<and> observable P acc \<and> fst acc = base \<and> acc_key acc = key)"

lemma field_access_at: "field_access P i p isRead base key \<Longrightarrow> accesses_at P i p isRead base key"
  by (force simp: field_access_def accesses_at_def accesses_def simp del: split_paired_Ex)

lemma collected_observations:
  assumes agree: "\<forall>fn \<in> set (srcFuncs ctx). agreeing (prog_of ctx) fn"
    and c: "collectObservations ctx = Some c" and fresh: "observations ctx = []" "observedAt ctx = []"
  shows "ob \<in> set (gm_slice (observations c) key) \<Longrightarrow> obsFunc ob \<in> set (srcFuncs ctx) \<and>
      (\<exists>i s base. reaches (prog_of ctx) (func_at (prog_of ctx) (obsFunc ob)) i s \<and>
        accesses_at (prog_of ctx) i (obsPos ob) (IsRead ob) base key \<and>
        hmf_FieldIndex ` set (SameBaseMutexFields ob) = base_held base s)"
    and "fn \<in> set (srcFuncs ctx) \<Longrightarrow> reaches (prog_of ctx) (func_at (prog_of ctx) fn) i s \<Longrightarrow>
      field_access (prog_of ctx) i p isRead base key \<Longrightarrow>
      \<exists>ob \<in> set (gm_slice (observations c) key). obsPos ob = p \<and> IsRead ob = isRead"
proof -
  let ?P = "prog_of ctx"
  from collect_trace [OF agree] c obtain tr
    where tr: "c = fold handle tr ctx" "covers ?P (set (srcFuncs ctx)) tr" by (metis option.inject)
  show "obsFunc ob \<in> set (srcFuncs ctx) \<and>
      (\<exists>i s base. reaches ?P (func_at ?P (obsFunc ob)) i s \<and> accesses_at ?P i (obsPos ob) (IsRead ob) base key \<and>
        hmf_FieldIndex ` set (SameBaseMutexFields ob) = base_held base s)"
    if "ob \<in> set (gm_slice (observations c) key)"
  proof -
    have "obs_from ?P (set tr) key ob"
      using fold_handle_obs [of ob tr ctx key] that fresh(1) by (simp add: tr(1))
    then obtain fn i s p isRead addr acc where e: "(fn, i, s) \<in> set tr" "access_addr i = Some (p, isRead, addr)"
        "acc \<in> set (accesses ?P addr)" "key = acc_key acc" "ob = obs_of fn isRead p s acc"
      unfolding obs_from_def by blast
    from tr(2) e(1) obtain t where t: "fn \<in> set (srcFuncs ctx)" "ls_ok s" "reaches ?P (func_at ?P fn) i t" "ls_eq s t"
      unfolding covers_def by blast
    have "base_held (fst acc) s = base_held (fst acc) t" using ls_eq_held [OF t(4)] by (simp add: base_held_def)
    with sameBase_fields [OF t(2), of "fst acc"]
    have "hmf_FieldIndex ` set (SameBaseMutexFields ob) = base_held (fst acc) t" by (simp add: e(5) obs_of_def)
    moreover have "accesses_at ?P i (obsPos ob) (IsRead ob) (fst acc) key"
      using e by (auto simp: accesses_at_def obs_of_def simp del: split_paired_Ex)
    ultimately show ?thesis using t by (auto simp: e(5) obs_of_def)
  qed
  show "\<exists>ob \<in> set (gm_slice (observations c) key). obsPos ob = p \<and> IsRead ob = isRead"
    if path: "fn \<in> set (srcFuncs ctx)" "reaches ?P (func_at ?P fn) i s" and acc: "field_access ?P i p isRead base key"
  proof -
    obtain s' where "(fn, i, s') \<in> set tr" using tr(2) path unfolding covers_def by blast
    with acc fold_handle_seen_access have "\<exists>acc. acc_key acc = key \<and> acc_seen c acc p isRead"
      unfolding field_access_def tr(1) by blast
    moreover have "seen_recorded c"
      unfolding tr(1) by (rule fold_handle_seen) (simp add: seen_recorded_def fresh)
    ultimately show ?thesis unfolding seen_recorded_def acc_seen_def by fastforce
  qed
qed

text \<open>Calls.\<close>

definition static_call :: "prog \<Rightarrow> ssa_instr \<Rightarrow> func \<Rightarrow> pos \<Rightarrow> bool" where
  "static_call P i callee p \<longleftrightarrow> (\<exists>common. i = ICall p common \<and> \<not> IsInvoke common \<and> StaticCallee common = Some callee \<and>
    Args common \<noteq> [] \<and> \<not> isLockMethod (fnName (func_at P callee)))"

definition key_held :: "prog \<Rightarrow> lockState \<Rightarrow> mutexFieldKey \<Rightarrow> bool" where
  "key_held P s m \<longleftrightarrow> (\<exists>r \<in> held_keys s. lr_kind r = fieldLock \<and> lr_fieldIndex r = mfk_FieldIndex m \<and>
    (\<exists>elem. as_pointer (Underlying P (type_of P (lr_base r))) = Some elem \<and> as_named elem = Some (mfk_StructType m)))"

lemma normalizeLockState_holds:
  assumes "ls_ok s"
  shows "(\<exists>hr \<in> set (gm_slice (normalizeLockState P s) n). hmr_FieldIndex hr = j) \<longleftrightarrow>
    key_held P s \<lparr>mfk_StructType = n, mfk_FieldIndex = j\<rparr>"
proof -
  let ?put = "\<lambda>(k, hl) result. if lr_kind (hl_ref hl) \<noteq> fieldLock then result
      else case as_pointer (Underlying P (type_of P (lr_base (hl_ref hl)))) of None \<Rightarrow> result
        | Some elem \<Rightarrow> (case as_named elem of None \<Rightarrow> result
             | Some n \<Rightarrow> gm_append result n \<lparr>hmr_FieldIndex = lr_fieldIndex (hl_ref hl), hmr_Exclusive = hl_exclusive hl\<rparr>)"
  let ?key = "\<lambda>r. lr_kind r = fieldLock \<and> lr_fieldIndex r = j \<and>
      (\<exists>elem. as_pointer (Underlying P (type_of P (lr_base r))) = Some elem \<and> as_named elem = Some n)"
  have loop: "(\<exists>hr \<in> set (gm_slice (fold ?put khs m) n). hmr_FieldIndex hr = j) \<longleftrightarrow>
      (\<exists>hr \<in> set (gm_slice m n). hmr_FieldIndex hr = j) \<or> (\<exists>(k, hl) \<in> set khs. ?key (hl_ref hl))" for khs m
  proof (induction khs arbitrary: m)
    case (Cons kh khs)
    obtain k hl where kh: "kh = (k, hl)" by fastforce
    have "(\<exists>hr \<in> set (gm_slice (?put kh m) n). hmr_FieldIndex hr = j) \<longleftrightarrow>
        (\<exists>hr \<in> set (gm_slice m n). hmr_FieldIndex hr = j) \<or> ?key (hl_ref hl)"
      by (auto simp: kh split: option.splits)
    then show ?case unfolding fold_simps Cons.IH by (auto simp: kh)
  qed simp
  have keys: "(\<exists>(k, hl) \<in> set (held s). ?key (hl_ref hl)) \<longleftrightarrow> (\<exists>r \<in> held_keys s. ?key r)"
  proof -
    have "(k, hl) \<in> set (held s) \<longleftrightarrow> gm_get (held s) k = Some hl" for k hl
      using assms by (simp add: ls_ok_def gm_get_Some_in)
    then show ?thesis using assms unfolding ls_ok_def by (fastforce simp: held_keys_iff)
  qed
  show ?thesis unfolding normalizeLockState_def loop keys key_held_def by simp
qed

lemma call_record_call:
  "cs \<in> set (instr_calls P fn i s) \<Longrightarrow> Caller cs = fn \<and> static_call P i (Callee cs) (csPos cs)"
  by (cases i) (auto simp: static_call_def call_record_def split: option.splits list.splits if_splits)

lemma call_record_held:
  assumes "cs \<in> set (instr_calls P fn i s)"
  shows "HeldByStructType cs = normalizeLockState P s"
  using assms by (cases i) (auto simp: call_record_def split: option.splits list.splits if_splits)

lemma call_record_ex:
  assumes "static_call P i callee p"
  shows "\<exists>cs \<in> set (instr_calls P fn i s). Caller cs = fn \<and> Callee cs = callee \<and> csPos cs = p"
  using assms by (auto simp: static_call_def call_record_def neq_Nil_conv)

lemma callerHolds_key_held:
  assumes "cs \<in> set (instr_calls P fn i s)" and "ls_ok s"
  shows "callerHoldsMutex cs m \<longleftrightarrow> key_held P s m"
  using normalizeLockState_holds [OF assms(2), of P "mfk_StructType m" "mfk_FieldIndex m"]
  by (auto simp: callerHoldsMutex_def call_record_held [OF assms(1)] gm_slice_def list_ex_iff key_held_def
      split: option.splits)

lemma key_held_eq: "ls_eq s t \<Longrightarrow> key_held P s m = key_held P t m"
  by (simp add: key_held_def ls_eq_held)

lemma collected_calls:
  assumes agree: "\<forall>fn \<in> set (srcFuncs ctx). agreeing (prog_of ctx) fn"
    and c: "collectObservations ctx = Some c" and fresh: "callSites ctx = []"
  shows "cs \<in> set (callSites c) \<Longrightarrow> Caller cs \<in> set (srcFuncs ctx) \<and>
      (\<exists>i s. reaches (prog_of ctx) (func_at (prog_of ctx) (Caller cs)) i s \<and>
        static_call (prog_of ctx) i (Callee cs) (csPos cs) \<and>
        (\<forall>m. callerHoldsMutex cs m \<longleftrightarrow> key_held (prog_of ctx) s m))"
    and "fn \<in> set (srcFuncs ctx) \<Longrightarrow> reaches (prog_of ctx) (func_at (prog_of ctx) fn) i s \<Longrightarrow>
      static_call (prog_of ctx) i callee p \<Longrightarrow>
      \<exists>cs \<in> set (callSites c). Caller cs = fn \<and> Callee cs = callee \<and> csPos cs = p \<and>
        (\<forall>m. callerHoldsMutex cs m \<longleftrightarrow> key_held (prog_of ctx) s m)"
proof -
  let ?P = "prog_of ctx"
  from collect_trace [OF agree] c obtain tr
    where tr: "c = fold handle tr ctx" "covers ?P (set (srcFuncs ctx)) tr" by (metis option.inject)
  have mem: "cs \<in> set (callSites c) \<longleftrightarrow> (\<exists>fn i s. (fn, i, s) \<in> set tr \<and> cs \<in> set (instr_calls ?P fn i s))" for cs
    unfolding tr(1) fold_handle_calls fresh by auto
  show "Caller cs \<in> set (srcFuncs ctx) \<and> (\<exists>i s. reaches ?P (func_at ?P (Caller cs)) i s \<and>
        static_call ?P i (Callee cs) (csPos cs) \<and> (\<forall>m. callerHoldsMutex cs m \<longleftrightarrow> key_held ?P s m))"
    if cs: "cs \<in> set (callSites c)"
  proof -
    from cs obtain fn i s where e: "(fn, i, s) \<in> set tr" "cs \<in> set (instr_calls ?P fn i s)" unfolding mem by blast
    from tr(2) e(1) obtain t where "fn \<in> set (srcFuncs ctx)" "ls_ok s" "reaches ?P (func_at ?P fn) i t" "ls_eq s t"
      unfolding covers_def by blast
    with e(2) show ?thesis
      using call_record_call [of cs ?P fn i s] callerHolds_key_held key_held_eq by blast
  qed
  show "\<exists>cs \<in> set (callSites c). Caller cs = fn \<and> Callee cs = callee \<and> csPos cs = p \<and>
        (\<forall>m. callerHoldsMutex cs m \<longleftrightarrow> key_held ?P s m)"
    if path: "fn \<in> set (srcFuncs ctx)" "reaches ?P (func_at ?P fn) i s" and call: "static_call ?P i callee p"
  proof -
    obtain s' where e: "(fn, i, s') \<in> set tr" "ls_eq s' s" using tr(2) path unfolding covers_def by blast
    then have "ls_ok s'" using tr(2) unfolding covers_def by blast
    from call_record_ex [OF call, of fn s']
    obtain cs where "cs \<in> set (instr_calls ?P fn i s')" "Caller cs = fn" "Callee cs = callee" "csPos cs = p" by blast
    moreover from this(1) have "callerHoldsMutex cs m \<longleftrightarrow> key_held ?P s m" for m
      using callerHolds_key_held [OF _ \<open>ls_ok s'\<close>] key_held_eq [OF e(2)] by blast
    ultimately show ?thesis using mem e(1) by blast
  qed
qed

text \<open>The lock-order graph and the unlocks without a lock.\<close>

lemma covers_mem:
  assumes "covers P F tr" and "\<And>s t i fn. ls_eq s t \<Longrightarrow> Q fn i s = Q fn i t"
  shows "(\<exists>fn i s. (fn, i, s) \<in> set tr \<and> Q fn i s) \<longleftrightarrow> (\<exists>fn \<in> F. \<exists>i t. reaches P (func_at P fn) i t \<and> Q fn i t)"
  using assms(1) unfolding covers_def by (metis assms(2))

lemma collected_order:
  assumes agree: "\<forall>fn \<in> set (srcFuncs ctx). agreeing (prog_of ctx) fn"
    and c: "collectObservations ctx = Some c" and fresh: "orderGraph ctx = newLockOrderGraph"
  shows "graph_rel (orderGraph c) = {(h, a). \<exists>fn \<in> set (srcFuncs ctx). \<exists>i s r.
    reaches (prog_of ctx) (func_at (prog_of ctx) fn) i s \<and> acquires (prog_of ctx) i = Some r \<and>
    (h, a) \<in> new_edges (prog_of ctx) s r}"
proof -
  let ?P = "prog_of ctx"
  from collect_trace [OF agree] c obtain tr
    where tr: "c = fold handle tr ctx" "covers ?P (set (srcFuncs ctx)) tr" by (metis option.inject)
  have "graph_rel newLockOrderGraph = {}" by (simp add: graph_rel_def graph_edges_def newLockOrderGraph_def)
  then have "ha \<in> graph_rel (orderGraph c) \<longleftrightarrow> (\<exists>fn i s. (fn, i, s) \<in> set tr \<and>
      (\<exists>r. acquires ?P i = Some r \<and> ha \<in> new_edges ?P s r))" for ha
    using fold_handle_graph [of ctx tr] graph_ok_empty unfolding tr(1) fresh by auto
  also have "\<dots> ha \<longleftrightarrow> (\<exists>fn \<in> set (srcFuncs ctx). \<exists>i s. reaches ?P (func_at ?P fn) i s \<and>
      (\<exists>r. acquires ?P i = Some r \<and> ha \<in> new_edges ?P s r))" for ha
    by (rule covers_mem [OF tr(2)]) (drule ls_eq_held, simp add: new_edges_def)
  finally show ?thesis by (simp add: set_eq_iff)
qed

lemma collected_unlocks:
  assumes agree: "\<forall>fn \<in> set (srcFuncs ctx). agreeing (prog_of ctx) fn"
    and c: "collectObservations ctx = Some c" and fresh: "unlockOfUnlockedCandidates ctx = []"
  shows "set (unlockOfUnlockedCandidates c) = {\<lparr>uuc_Fn = fn, uuc_Pos = p, uuc_Ref = r\<rparr> |fn p r.
    fn \<in> set (srcFuncs ctx) \<and> (\<exists>i s. reaches (prog_of ctx) (func_at (prog_of ctx) fn) i s \<and>
      releases (prog_of ctx) i = Some (p, r) \<and> r \<notin> held_keys s)}"
proof -
  let ?P = "prog_of ctx"
  from collect_trace [OF agree] c obtain tr
    where tr: "c = fold handle tr ctx" "covers ?P (set (srcFuncs ctx)) tr" by (metis option.inject)
  have eq: "uu \<in> set (instr_unlocks ?P fn i s) \<longleftrightarrow>
      (\<exists>p r. uu = \<lparr>uuc_Fn = fn, uuc_Pos = p, uuc_Ref = r\<rparr> \<and> releases ?P i = Some (p, r) \<and> r \<notin> held_keys s)" for uu fn i s
    by (auto simp: instr_unlocks_def split: option.splits)
  have "uu \<in> set (unlockOfUnlockedCandidates c) \<longleftrightarrow>
      (\<exists>fn i s. (fn, i, s) \<in> set tr \<and> uu \<in> set (instr_unlocks ?P fn i s))" for uu
    unfolding tr(1) fold_handle_unlocks fresh by auto
  also have "\<dots> uu \<longleftrightarrow> (\<exists>fn \<in> set (srcFuncs ctx). \<exists>i s. reaches ?P (func_at ?P fn) i s \<and>
      uu \<in> set (instr_unlocks ?P fn i s))" for uu
    by (rule covers_mem [OF tr(2)]) (drule ls_eq_held, simp add: eq)
  finally show ?thesis unfolding eq by blast
qed

end
