(* ===== verification/Acquire_Helpers.thy ===== *)
theory Acquire_Helpers
  imports Reporter
begin

text \<open>
  What the check of acquire helpers (\<open>checkCallersOfAcquireHelpers\<close> of \<open>pkg/analyzer/reporter.go\<close>)
  reports: the functions that return with a lock held, and their callers that neither release the lock
  nor return with it themselves.
\<close>

definition leak_positions :: "passContext \<Rightarrow> func \<Rightarrow> mutexFieldKey \<Rightarrow> pos set" where
  "leak_positions ctx fn mfk = {llc_Pos c |c. c \<in> leak_candidates ctx \<and> llc_Fn c = fn \<and>
    lockRefToMutexFieldKey (prog_of ctx) (llc_Ref c) = Some mfk}"

lemma returnPositions_spec:
  assumes "gm_ok (lockLeakCandidates ctx)"
  shows "set (gm_slice (returnPositions ctx) (fn, mfk)) = leak_positions ctx fn mfk"
    and "distinct (gm_slice (returnPositions ctx) (fn, mfk))"
    and "gm_ok (returnPositions ctx)"
proof -
  let ?f = "\<lambda>c m. case lockRefToMutexFieldKey (prog_of ctx) (llc_Ref c) of
        None \<Rightarrow> m
      | Some mfk \<Rightarrow> gm_put m (llc_Fn c, mfk) (set_add (gm_slice m (llc_Fn c, mfk)) (llc_Pos c))"
  let ?all = "concat (map snd (lockLeakCandidates ctx))"
  have all: "set ?all = leak_candidates ctx"
  proof -
    have "c \<in> set ?all \<longleftrightarrow> (\<exists>p cs. gm_get (lockLeakCandidates ctx) p = Some cs \<and> c \<in> set cs)" for c
      unfolding gm_get_Some_in [OF assms] by force
    then show ?thesis unfolding leak_candidates_def gm_slice_mem set_eq_iff mem_Collect_eq by (rule allI)
  qed
  have "set (gm_slice (fold ?f cs m) (fn, mfk)) = set (gm_slice m (fn, mfk)) \<union>
      {llc_Pos c |c. c \<in> set cs \<and> llc_Fn c = fn \<and> lockRefToMutexFieldKey (prog_of ctx) (llc_Ref c) = Some mfk}"
    for cs :: "lockLeakCandidate list" and m
    by (induction cs arbitrary: m) (auto split: option.splits)
  then show "set (gm_slice (returnPositions ctx) (fn, mfk)) = leak_positions ctx fn mfk"
    unfolding returnPositions_def leak_positions_def all [symmetric] by simp
  have "distinct (gm_slice (fold ?f cs m) (fn, mfk))" if "\<forall>k. distinct (gm_slice m k)"
    for cs :: "lockLeakCandidate list" and m
    using that by (induction cs arbitrary: m) (auto split: option.splits)
  then show "distinct (gm_slice (returnPositions ctx) (fn, mfk))" by (simp add: returnPositions_def)
  have "gm_ok (fold ?f cs m)" if "gm_ok m" for cs :: "lockLeakCandidate list" and m
    using that by (induction cs arbitrary: m) (auto split: option.splits)
  then show "gm_ok (returnPositions ctx)" by (simp add: returnPositions_def)
qed

lemma computeReturnsHolding_spec:
  assumes "gm_ok (lockLeakCandidates ctx)"
  shows "mfk \<in> set (ReturnsHolding (factsOf (computeReturnsHolding ctx) fn)) \<longleftrightarrow>
    mfk \<in> set (ReturnsHolding (factsOf ctx fn)) \<or>
    0 < returnCount ctx fn \<and> card (leak_positions ctx fn mfk) = returnCount ctx fn"
proof -
  let ?f = "\<lambda>((fn, mfk), positions) ctx'.
        if length positions = returnCount ctx fn \<and> returnCount ctx fn > 0
        then updFuncFacts ctx' fn (\<lambda>f. f\<lparr>ReturnsHolding := set_add (ReturnsHolding f) mfk\<rparr>)
        else ctx'"
  have fold: "mfk \<in> set (ReturnsHolding (factsOf (fold ?f rps c) fn)) \<longleftrightarrow>
      mfk \<in> set (ReturnsHolding (factsOf c fn)) \<or>
      (\<exists>ps. ((fn, mfk), ps) \<in> set rps \<and> length ps = returnCount ctx fn \<and> returnCount ctx fn > 0)" for rps c
    by (induction rps arbitrary: c) (auto split: if_splits)
  let ?ps = "gm_slice (returnPositions ctx) (fn, mfk)"
  have len: "length ?ps = card (leak_positions ctx fn mfk)"
    using returnPositions_spec(1, 2) [OF assms] by (metis distinct_card)
  have "(\<exists>ps. ((fn, mfk), ps) \<in> set (returnPositions ctx) \<and> length ps = returnCount ctx fn \<and>
      returnCount ctx fn > 0) \<longleftrightarrow> 0 < returnCount ctx fn \<and> length ?ps = returnCount ctx fn"
    unfolding gm_get_Some_in [OF returnPositions_spec(3) [OF assms], symmetric]
    by (auto simp: gm_slice_def split: option.splits)
  then show ?thesis unfolding computeReturnsHolding_def fold len by blast
qed

section \<open>Acquire helpers, specified\<close>

text \<open>The check of the callers creates empty facts for callers that have none, so it is no check that only reports;
  what it looks at stays the same.\<close>

definition same_facts :: "passContext \<Rightarrow> passContext \<Rightarrow> bool" where
  "same_facts ctx ctx' \<longleftrightarrow> pass ctx' = pass ctx \<and> annos ctx' = annos ctx \<and> (\<forall>fn. factsOf ctx' fn = factsOf ctx fn)"

definition helper_reports :: "passContext \<Rightarrow> (pos \<times> diagnostic) set" where
  "helper_reports ctx = (\<Union>fn. \<Union>mfk \<in> set (ReturnsHolding (factsOf ctx fn)).
    key_diag ctx fn (fnPos (func_at (prog_of ctx) fn)) mfk (AcquireHelper (fnName (func_at (prog_of ctx) fn))))"

definition release_reports :: "passContext \<Rightarrow> callSiteRecord \<Rightarrow> (pos \<times> diagnostic) set" where
  "release_reports ctx cs =
    (\<Union>mfk \<in> set (ReturnsHolding (factsOf ctx (Callee cs))) - set (ReturnsHolding (factsOf ctx (Caller cs)))
        - set (Releases (factsOf ctx (Caller cs))).
      key_diag ctx (Caller cs) (csPos cs) mfk (CallerMissingUnlock (fnName (func_at (prog_of ctx) (Caller cs)))
        (fnName (func_at (prog_of ctx) (Callee cs)))))"

lemma same_facts_refl [simp]: "same_facts ctx ctx"
  by (simp add: same_facts_def)

lemma same_facts_trans [trans]: "same_facts a b \<Longrightarrow> same_facts b c \<Longrightarrow> same_facts a c"
  by (simp add: same_facts_def)

lemma same_facts_reports: "only_reports ctx ctx' \<Longrightarrow> same_facts ctx ctx'"
  by (simp add: same_facts_def factsOf_def only_reports_frame)

lemma same_facts_key_diag:
  assumes "same_facts ctx ctx'"
  shows "key_diag ctx' fn p mfk d = key_diag ctx fn p mfk d"
proof -
  have "pass ctx' = pass ctx" "annos ctx' = annos ctx" using assms by (simp_all add: same_facts_def)
  then show ?thesis by (simp add: key_diag_def isSuppressed_same [of ctx' ctx])
qed

interpretation keys: reporting
  "\<lambda>(fn, p, mfk, d) ctx. report_key ctx fn p mfk d" "\<lambda>ctx (fn, p, mfk, d). key_diag ctx fn p mfk d"
  by unfold_locales (auto simp: report_key_reports diag_invariant)

lemma reportAcquireHelpers_reports:
  assumes "gm_ok (funcFacts ctx)"
  shows "same_facts ctx (reportAcquireHelpers ctx)"
    and "set (diagnostics (reportAcquireHelpers ctx)) = set (diagnostics ctx) \<union> helper_reports ctx"
proof -
  let ?f = "\<lambda>fn. func_at (prog_of ctx) fn"
  let ?item = "\<lambda>fn mfk. (fn, fnPos (?f fn), mfk, AcquireHelper (fnName (?f fn)))"
  let ?items = "\<lambda>(fn, facts). map (?item fn)
      (shuffle (rangeOrder (pass ctx) ''checkCallersOfAcquireHelpers.keys'' fn) (ReturnsHolding facts))"
  let ?check = "\<lambda>(fn, p, mfk, d) ctx. report_key ctx fn p mfk d"
  have inner: "fold (\<lambda>mfk ctx'. reportAcquireHelper ctx' fn mfk) mfks c = fold ?check (map (?item fn) mfks) c"
    if "pass c = pass ctx" for fn mfks c
    using that by (induction mfks arbitrary: c)
      (simp_all add: reportAcquireHelper_def only_reports_frame [OF report_key_reports(1)])
  have "fold (\<lambda>(fn, facts) ctx'. fold (\<lambda>mfk ctx'. reportAcquireHelper ctx' fn mfk)
      (shuffle (rangeOrder (pass ctx) ''checkCallersOfAcquireHelpers.keys'' fn) (ReturnsHolding facts)) ctx') ffs c =
      fold ?check (concat (map ?items ffs)) c" if "pass c = pass ctx" for ffs c
    using that by (induction ffs arbitrary: c)
      (auto simp: inner only_reports_frame [OF keys.fold_only_reports])
  then have eq: "reportAcquireHelpers ctx = fold ?check (concat (map ?items
      (shuffle (rangeOrder (pass ctx) ''checkCallersOfAcquireHelpers'' 0) (funcFacts ctx)))) ctx"
    unfolding reportAcquireHelpers_def by blast
  show "same_facts ctx (reportAcquireHelpers ctx)" unfolding eq by (rule same_facts_reports [OF keys.fold_only_reports])
  have old: "facts = factsOf ctx fn" if "(fn, facts) \<in> set (funcFacts ctx)" for fn facts
    using gm_get_Some_in [OF assms, of fn facts] that by (simp add: factsOf_def)
  have new: "(fn, factsOf ctx fn) \<in> set (funcFacts ctx)" if "ReturnsHolding (factsOf ctx fn) \<noteq> []" for fn
    using gm_get_Some_in [OF assms, of fn] that
    by (cases "gm_get (funcFacts ctx) fn") (auto simp: factsOf_def newFuncLockFacts_def)
  have "set (concat (map ?items (shuffle (rangeOrder (pass ctx) ''checkCallersOfAcquireHelpers'' 0) (funcFacts ctx)))) =
      (\<Union>(fn, facts) \<in> set (funcFacts ctx). ?item fn ` set (ReturnsHolding facts))"
    by auto
  also have "\<dots> = (\<Union>fn. ?item fn ` set (ReturnsHolding (factsOf ctx fn)))"
  proof (rule equalityI; rule subsetI)
    fix x assume "x \<in> (\<Union>(fn, facts) \<in> set (funcFacts ctx). ?item fn ` set (ReturnsHolding facts))"
    then show "x \<in> (\<Union>fn. ?item fn ` set (ReturnsHolding (factsOf ctx fn)))" using old by blast
  next
    fix x assume "x \<in> (\<Union>fn. ?item fn ` set (ReturnsHolding (factsOf ctx fn)))"
    then obtain fn where fn: "x \<in> ?item fn ` set (ReturnsHolding (factsOf ctx fn))" by blast
    then have "ReturnsHolding (factsOf ctx fn) \<noteq> []" by auto
    from new [OF this] fn show "x \<in> (\<Union>(fn, facts) \<in> set (funcFacts ctx). ?item fn ` set (ReturnsHolding facts))" by blast
  qed
  finally show "set (diagnostics (reportAcquireHelpers ctx)) = set (diagnostics ctx) \<union> helper_reports ctx"
    unfolding eq keys.fold_reports helper_reports_def by simp
qed

lemma checkCallerReleases_reports:
  assumes "same_facts ctx0 ctx"
  shows "same_facts ctx0 (checkCallerReleases ctx1 (i, cs) ctx)"
    and "set (diagnostics (checkCallerReleases ctx1 (i, cs) ctx)) = set (diagnostics ctx) \<union> release_reports ctx0 cs"
proof -
  obtain f c where fc: "getOrCreateFuncFacts ctx (Caller cs) = (f, c)" by fastforce
  then have c: "f = factsOf ctx (Caller cs)" "same_facts ctx c" "diagnostics c = diagnostics ctx"
    by (auto simp: getOrCreateFuncFacts_def same_facts_def factsOf_def split: option.splits if_splits)
  note same = same_facts_trans [OF assms c(2)]
  let ?item = "\<lambda>mfk. (Caller cs, csPos cs, mfk, CallerMissingUnlock (fnName (func_at (prog_of ctx0) (Caller cs)))
      (fnName (func_at (prog_of ctx0) (Callee cs))))"
  let ?check = "\<lambda>(fn, p, mfk, d) ctx. report_key ctx fn p mfk d"
  let ?bad = "\<lambda>mfk. mfk \<notin> set (ReturnsHolding f) \<and> mfk \<notin> set (Releases f)"
  have run: "fold (\<lambda>mfk ctx'. if mfk \<in> set (ReturnsHolding f) then ctx' else if mfk \<in> set (Releases f) then ctx'
        else reportCallerMissingUnlock ctx' cs mfk) mfks d = fold ?check (map ?item (filter ?bad mfks)) d"
    if "pass d = pass ctx0" for mfks d
    using that by (induction mfks arbitrary: d)
      (simp_all add: reportCallerMissingUnlock_def only_reports_frame [OF report_key_reports(1)])
  show "same_facts ctx0 (checkCallerReleases ctx1 (i, cs) ctx)"
    using same assms run [of c] same_facts_trans [OF same same_facts_reports [OF keys.fold_only_reports]]
    by (auto simp: checkCallerReleases_def fc same_facts_def split: option.splits)
  have "release_reports ctx0 cs = (\<Union>mfk \<in> set (filter ?bad (ReturnsHolding (factsOf ctx (Callee cs)))).
      case ?item mfk of (fn, p, mfk, d) \<Rightarrow> key_diag c fn p mfk d)"
    using assms by (auto simp: release_reports_def same_facts_def c(1) same_facts_key_diag [OF same])
  then show "set (diagnostics (checkCallerReleases ctx1 (i, cs) ctx)) = set (diagnostics ctx) \<union> release_reports ctx0 cs"
    using same run [of c] c(3) keys.fold_reports
    by (auto simp: checkCallerReleases_def fc same_facts_def factsOf_def newFuncLockFacts_def split: option.splits)
qed

theorem checkCallersOfAcquireHelpers_reports:
  assumes "gm_ok (funcFacts ctx)"
  shows "same_facts ctx (checkCallersOfAcquireHelpers ctx)"
    and "set (diagnostics (checkCallersOfAcquireHelpers ctx)) = set (diagnostics ctx) \<union> helper_reports ctx \<union>
      (\<Union>cs \<in> set (callSites ctx). release_reports ctx cs)"
proof -
  have step: "same_facts ctx c \<Longrightarrow> same_facts ctx (fold (checkCallerReleases ctx) ics c) \<and>
      set (diagnostics (fold (checkCallerReleases ctx) ics c)) =
        set (diagnostics c) \<union> (\<Union>ics \<in> set ics. release_reports ctx (snd ics))" for ics c
  proof (induction ics arbitrary: c)
    case (Cons ic ics)
    obtain i cs where ic: "ic = (i, cs)" by fastforce
    from checkCallerReleases_reports [OF Cons.prems, of ctx i cs] Cons.IH [of "checkCallerReleases ctx ic c"]
    show ?case by (auto simp: ic)
  qed simp
  note helpers = reportAcquireHelpers_reports [OF assms]
  have "(\<Union>ics \<in> set (enumerate 0 (callSites ctx)). release_reports ctx (snd ics)) =
      (\<Union>cs \<in> set (callSites ctx). release_reports ctx cs)"
    by (metis image_image snd_set_enumerate)
  then show "same_facts ctx (checkCallersOfAcquireHelpers ctx)"
    "set (diagnostics (checkCallersOfAcquireHelpers ctx)) = set (diagnostics ctx) \<union> helper_reports ctx \<union>
      (\<Union>cs \<in> set (callSites ctx). release_reports ctx cs)"
    using step [OF helpers(1), of "enumerate 0 (callSites ctx)"] helpers(2)
    by (simp_all add: checkCallersOfAcquireHelpers_def)
qed

end
