(* ===== verification/Reports_Real.thy ===== *)
theory Reports_Real
  imports End_To_End Walk_Collects Acquire_Helpers
begin

text \<open>
  The reports of the whole pass (\<open>run\<close> of \<open>pkg/analyzer/golintmu.go\<close>) against the paths of the analysed
  functions, for packages whose functions have agreeing paths: a reported violation is an access
  that some path makes without the guard, a reported missing lock is a call on some path that leads to
  such an access (or to an imported function that requires the lock), and an access that some path makes without
  the guard is reported.
\<close>

section \<open>The kinds of diagnostics\<close>

definition walk_kinds :: "passContext \<Rightarrow> bool" where
  "walk_kinds ctx \<longleftrightarrow> (\<forall>(p, d) \<in> set (diagnostics ctx). walk_kind d) \<and> (\<forall>fn. Requires (factsOf ctx fn) = [])"

lemma walk_kinds_same:
  "walk_kinds ctx \<Longrightarrow> diagnostics ctx' = diagnostics ctx \<Longrightarrow> funcFacts ctx' = funcFacts ctx \<Longrightarrow> walk_kinds ctx'"
  by (simp add: walk_kinds_def factsOf_def)

lemma walk_kinds_facts:
  "walk_kinds ctx \<Longrightarrow> (\<And>f. Requires (upd f) = Requires f) \<Longrightarrow> walk_kinds (updFuncFacts ctx fn upd)"
  by (simp add: walk_kinds_def)

interpretation kinds: walk_inv walk_kinds
proof
  fix ctx :: passContext and fn callee p ls recv block sa sb ref es cs ts acc isRead and d :: "string \<Rightarrow> diagnostic"
  assume kinds: "walk_kinds ctx"
  show "walk_kinds (reportInconsistentLockState ctx fn block sa sb)"
    using kinds only_reports_frame [OF only_reports_inconsistent]
    unfolding walk_kinds_def inconsistent_reports by (auto simp: factsOf_def)
  show "walk_kinds (recordLockAcquisition ctx fn ref)" "walk_kinds (recordRelease ctx fn ref)"
    using kinds by (auto simp: recordLockAcquisition_def recordRelease_def walk_kinds_facts split: option.splits)
  show "walk_kinds (addEdges ctx es)" "walk_kinds (ctx\<lparr>unlockOfUnlockedCandidates := cs\<rparr>)"
    "walk_kinds (ctx\<lparr>deferredLockTypoReported := ts\<rparr>)" "walk_kinds (checkReturnWithHeldLocks ctx fn p ls)"
    "walk_kinds (recordCallSite ctx fn callee p ls recv)" "walk_kinds (addObservation ctx fn isRead p ls acc)"
    by (rule walk_kinds_same [OF kinds]; simp add: addEdges_def recordCallSite_def checkReturnWithHeldLocks_def Let_def
        addObservation_def split: prod.splits)+
  assume "\<forall>n. walk_kind (d n)"
  with kinds show "walk_kinds (report_lock ctx fn p ref d)"
    by (auto simp: walk_kinds_def report_lock_def report_def factsOf_def Let_def)
qed

lemma same_core_later: "same_core (inferPhases c) (laterPhases c)"
proof -
  let ?c = "inferPhases c"
  let ?c4 = "reportDeferredUnlockOfUnlocked (reportDeferredLockLeaks
    (checkCallersOfAcquireHelpers (computeReturnsHolding (orderPhases ?c))))"
  let ?c6 = "checkInterproceduralViolations (checkViolations ?c4)"
  have "same_core ?c ?c4" by (rule same_core_before_violations)
  also have "same_core ?c4 (checkViolations ?c4)" by (rule same_core_reports [OF checkViolations_reports])
  also have "same_core (checkViolations ?c4) ?c6" by (rule same_core_reports [OF checkInterproceduralViolations_reports])
  also have "same_core ?c6 (checkExportedGuardedFields ?c6)"
    by (rule same_core_reports [OF checkExportedGuardedFields_reports])
  also have "same_core (checkExportedGuardedFields ?c6) (exportFacts (checkExportedGuardedFields ?c6))"
    by (simp add: same_core_def exportFacts_def exportFieldGuardFacts_def exportFuncLockFacts_def
        exportConcurrentFacts_def Let_def requirers_def acquirers_def factsOf_def)
  finally show ?thesis by (simp add: laterPhases_def reportPhases_def Let_def)
qed

lemma same_core_fields:
  assumes "same_core ctx ctx'"
  shows "pass ctx' = pass ctx" "callSites ctx' = callSites ctx" "guards ctx' = guards ctx"
    "req_rel ctx' m = req_rel ctx m"
  using assms by (simp_all add: same_core_def req_rel_def)

text \<open>What the phases around the checks of accesses and calls report is of other kinds.\<close>

fun access_kind :: "diagnostic \<Rightarrow> bool" where
  "access_kind (Violation s f m) = True"
| "access_kind (MissingLockAtCallSite n g reasons) = True"
| "access_kind d = False"

lemma walk_kind_other: "walk_kind d \<Longrightarrow> \<not> access_kind d"
  by (cases d) simp_all

lemma other_kinds:
  "pd \<in> cycle_reports ctx cycle \<Longrightarrow> \<not> access_kind (snd pd)"
  "pd \<in> helper_reports ctx \<Longrightarrow> \<not> access_kind (snd pd)"
  "pd \<in> release_reports ctx cs \<Longrightarrow> \<not> access_kind (snd pd)"
  "pd \<in> leaks ctx c \<Longrightarrow> \<not> access_kind (snd pd)"
  "pd \<in> bad_unlocks ctx uc \<Longrightarrow> \<not> access_kind (snd pd)"
  "pd \<in> exported_reports ctx kg \<Longrightarrow> \<not> access_kind (snd pd)"
  by (auto simp: cycle_reports_def helper_reports_def release_reports_def leaks_def bad_unlocks_def
      exported_reports_def key_diag_def lock_diag_def Let_def split: list.splits prod.splits)

lemma before_violations_kinds:
  assumes ok: "ctx_ok ctx" and d: "access_kind (snd pd)"
  shows "pd \<in> set (diagnostics (reportDeferredUnlockOfUnlocked (reportDeferredLockLeaks
    (checkCallersOfAcquireHelpers (computeReturnsHolding (orderPhases ctx)))))) \<longleftrightarrow> pd \<in> set (diagnostics ctx)"
proof -
  let ?c1 = "computeReturnsHolding (orderPhases ctx)"
  have "gm_ok (funcFacts ?c1)"
    using ok_returnsHolding [OF ok_order [OF ok]] by (simp add: ctx_ok_def facts_ok_def)
  note helpers = checkCallersOfAcquireHelpers_reports(2) [OF this]
  have "diagnostics (computeReturnsHolding c) = diagnostics c" for c
    unfolding computeReturnsHolding_def
    by (rule fold_ok [where I = "\<lambda>c'. diagnostics c' = diagnostics c"]) (auto split: prod.splits)
  moreover have "pd \<in> set (diagnostics (orderPhases ctx)) \<longleftrightarrow> pd \<in> set (diagnostics ctx)"
    using d unfolding orderPhases_def detectAndReportLockOrderCycles_reports(2)
    by (auto simp: collectInterproceduralLockOrderEdges_def addEdges_def dest: other_kinds)
  ultimately show ?thesis
    using d unfolding reportDeferredUnlockOfUnlocked_reports(2) reportDeferredLockLeaks_reports(2) helpers
    by (auto dest: other_kinds)
qed

lemma later_access_kinds:
  assumes ok: "ctx_ok c" and d: "access_kind (snd pd)" and pd: "pd \<in> set (diagnostics (laterPhases c))"
  shows "pd \<in> set (diagnostics c) \<or> (\<exists>x \<in> guarded_obs (inferPhases c). pd \<in> violations (inferPhases c) x) \<or>
    (\<exists>cs \<in> set (callSites c). \<exists>ctx. same_core (inferPhases c) ctx \<and> pd \<in> site_reports ctx cs)"
proof -
  let ?c = "inferPhases c"
  let ?c4 = "reportDeferredUnlockOfUnlocked (reportDeferredLockLeaks
    (checkCallersOfAcquireHelpers (computeReturnsHolding (orderPhases ?c))))"
  have core: "same_core ?c ?c4" by (rule same_core_before_violations)
  have "diagnostics ?c = diagnostics c"
    by (simp add: inferPhases_def facts_only_same [OF facts_only_propagate] facts_only_same [OF facts_only_derive])
      (simp add: inferGuards_def)
  then have old: "pd \<in> set (diagnostics ?c4) \<longleftrightarrow> pd \<in> set (diagnostics c)"
    using before_violations_kinds [OF ok_inferPhases [OF ok] d] by simp
  have core': "same_core ?c (checkViolations ?c4)"
    by (rule same_core_trans [OF core same_core_reports [OF checkViolations_reports]])
  have sites: "callSites (checkViolations ?c4) = callSites c"
    using core' by (simp add: same_core_def infer_frame)
  have "pd \<in> set (diagnostics (checkInterproceduralViolations (checkViolations ?c4)))"
    using pd d
    by (auto simp: laterPhases_def reportPhases_def Let_def checkExportedGuardedFields_reports(2) dest: other_kinds(6))
  then have "pd \<in> set (diagnostics c) \<or> (\<exists>x \<in> guarded_obs ?c. pd \<in> violations ?c x) \<or>
      (\<exists>cs \<in> set (callSites c). pd \<in> site_reports (checkViolations ?c4) cs)"
    unfolding checkInterproceduralViolations_reports(2) checkViolations_reports(2) sites
      same_core_guarded [OF core] same_core_violations [OF core] using old by blast
  with core' show ?thesis by blast
qed

section \<open>The pass and its first phase\<close>

lemma run_phases:
  assumes "run p = Some ctx"
  obtains (none) "\<not> hasSSA p" "ctx = newPassContext p"
  | (some) c where "hasSSA p" "collectObservations (parseAnnotations (newPassContext p)) = Some c"
      "ctx = laterPhases (importFacts c)"
  using assms by (auto simp: run_def analyze_def collectPhases_def split: if_splits)

lemma fresh_context:
  "srcFuncs (parseAnnotations (newPassContext p)) = SrcFuncs p" "pass (parseAnnotations (newPassContext p)) = p"
  "observations (parseAnnotations (newPassContext p)) = []" "observedAt (parseAnnotations (newPassContext p)) = []"
  "callSites (parseAnnotations (newPassContext p)) = []" "diagnostics (parseAnnotations (newPassContext p)) = []"
  "funcFacts (parseAnnotations (newPassContext p)) = []"
  by (simp_all add: parseAnnotations_def newPassContext_def)

lemma collected_kinds:
  assumes "collectObservations (parseAnnotations (newPassContext p)) = Some c"
  shows "walk_kinds c" and "ctx_ok (importFacts c)" and "pass c = p"
proof -
  show "walk_kinds c"
    by (rule kinds.inv_collect [OF assms]) (simp add: walk_kinds_def factsOf_def newFuncLockFacts_def
        parseAnnotations_def newPassContext_def)
  show "ctx_ok (importFacts c)"
    using ok_collectPhases [OF _ ctx_ok_new, of p "importFacts c"] assms by (simp add: collectPhases_def)
  show "pass c = p" using fixed.inv_collect [OF assms, of p "SrcFuncs p"] by (simp add: parseAnnotations_def newPassContext_def)
qed

lemma run_pass: "run p = Some ctx \<Longrightarrow> pass ctx = p"
proof (erule run_phases)
  fix c assume c: "collectObservations (parseAnnotations (newPassContext p)) = Some c" "ctx = laterPhases (importFacts c)"
  show "pass ctx = p"
    unfolding c(2) same_core_fields(1) [OF same_core_later] by (simp add: infer_frame collected_kinds(3) [OF c(1)])
qed (simp add: newPassContext_def)

section \<open>Requirements that are imported\<close>

definition imported_requirement :: "apass \<Rightarrow> func \<Rightarrow> mutexFieldKey \<Rightarrow> bool" where
  "imported_requirement p f m \<longleftrightarrow> (\<exists>obj fct ref. fnObject (func_at (passProg p) f) = Some obj \<and>
    foPkg obj \<noteq> Some (passPkg p) \<and> ImportFuncFact p (foIdent obj) = Some fct \<and> ref \<in> set (factRequires fct) \<and>
    mutexRefToKey (newPassContext p) ref = Some m)"

lemma requirers_import:
  assumes "f \<in> requirers (importFacts c) m"
  shows "f \<in> requirers c m \<or> imported_requirement (pass c) f m"
proof -
  let ?c = "importFieldGuardFacts c"
  have same: "pass ?c = pass c" "factsOf ?c g = factsOf c g" for g
    by (simp_all add: importFieldGuardFacts_def factsOf_def)
  have key: "mutexRefToKey d ref = mutexRefToKey (newPassContext (pass d)) ref" for d ref
    by (simp add: mutexRefToKey_def findPackage_def newPassContext_def)
  have "funcFacts (importConcurrentFacts d) = funcFacts d" for d
    unfolding importConcurrentFacts_def
    by (rule fold_ok [where I = "\<lambda>d'. funcFacts d' = funcFacts d"]) (auto split: option.splits)
  then have conc: "factsOf (importConcurrentFacts d) g = factsOf d g" for d g by (simp add: factsOf_def)
  have "m \<in> set (Requires (factsOf (importFuncLockFacts d) g)) \<Longrightarrow>
      m \<in> set (Requires (factsOf d g)) \<or> imported_requirement (pass d) g m" for d g
  proof -
    assume new: "m \<in> set (Requires (factsOf (importFuncLockFacts d) g))"
    show ?thesis
    proof (rule ccontr)
      assume not: "\<not> ?thesis"
      let ?I = "\<lambda>d'. m \<notin> set (Requires (factsOf d' g))"
      have "?I (importFuncLockFacts d)"
        unfolding importFuncLockFacts_def
      proof (rule fold_ok [where I = ?I])
        show "?I d" using not by simp
        fix x d' assume x: "x \<in> set (importedCallees d)" and I: "?I d'"
        obtain callee obj where [simp]: "x = (callee, obj)" by fastforce
        have "m \<notin> set (Requires (mergeFact d fct f'))"
          if "callee = g" "ImportFuncFact (pass d) (foIdent obj) = Some fct" "m \<notin> set (Requires f')" for fct f'
          using that not x importedCallees_spec(1) [of callee obj d] key [of d]
          by (auto simp: mergeFact_def set_addRefs imported_requirement_def)
        then show "?I ((\<lambda>(callee, obj) ctx'. case ImportFuncFact (pass d) (foIdent obj) of None \<Rightarrow> ctx'
            | Some fct \<Rightarrow> updFuncFacts ctx' callee (mergeFact d fct)) x d')"
          using I by (auto split: option.splits)
      qed
      with new show False by simp
    qed
  qed
  from this [of ?c f] assms show ?thesis
    by (simp add: requirers_def importFacts_def same conc split: if_splits)
qed

section \<open>Reports are about the program\<close>

definition unguarded_access :: "apass \<Rightarrow> passContext \<Rightarrow> func \<Rightarrow> pos \<Rightarrow> fieldKey \<Rightarrow> guardInfo \<Rightarrow> bool" where
  "unguarded_access p ctx fn q key guard \<longleftrightarrow> fn \<in> set (SrcFuncs p) \<and> gm_get (guards ctx) key = Some guard \<and>
    \<not> isConstructorLike (passProg p) fn (fk_StructType key) \<and>
    (\<exists>i s isRead base. reaches (passProg p) (func_at (passProg p) fn) i s \<and>
      accesses_at (passProg p) i q isRead base key \<and> MutexFieldIndex guard \<notin> base_held base s)"

lemma obs_unguarded:
  assumes agree: "\<forall>fn \<in> set (SrcFuncs p). agreeing (passProg p) fn"
    and c: "collectObservations (parseAnnotations (newPassContext p)) = Some c"
    and obs: "(key, guard, obs) \<in> guarded_obs (inferPhases (importFacts c))" "needs_guard (passProg p) key guard obs"
  shows "unguarded_access p (laterPhases (importFacts c)) (obsFunc obs) (obsPos obs) key guard"
proof -
  let ?i = "inferPhases (importFacts c)"
  have "guards (laterPhases (importFacts c)) = guards ?i" by (rule same_core_fields(3) [OF same_core_later])
  moreover have "gm_get (guards ?i) key = Some guard" "obs \<in> set (gm_slice (observations c) key)"
    using obs(1) by (simp_all add: guarded_obs_def infer_frame)
  ultimately show ?thesis
    using collected_observations(1) [OF _ c, of obs key] agree obs(2)
    unfolding unguarded_access_def fresh_context needs_guard_def by auto metis
qed

lemma violation_real:
  assumes agree: "\<forall>fn \<in> set (SrcFuncs p). agreeing (passProg p) fn" and run: "run p = Some ctx"
    and d: "(q, Violation sn fl mn) \<in> set (diagnostics ctx)"
  shows "\<exists>fn key guard fs. unguarded_access p ctx fn q key guard \<and> isConcurrent ctx fn \<and>
    Underlying (passProg p) (Named (fk_StructType key)) = Struct fs \<and>
    sn = objName (named_at (passProg p) (fk_StructType key)) \<and> fl = fieldName (fs ! fk_FieldIndex key) \<and>
    mn = fieldName (fs ! MutexFieldIndex guard)"
  using run
proof (cases rule: run_phases)
  case none
  with d show ?thesis by (simp add: newPassContext_def)
next
  case (some c)
  let ?i = "inferPhases (importFacts c)"
  note parts = collected_kinds [OF some(2)]
  have P: "prog_of ?i = passProg p" by (simp add: infer_frame parts(3))
  have "(q, Violation sn fl mn) \<notin> set (diagnostics (importFacts c))"
    using parts(1) by (auto simp: walk_kinds_def)
  moreover have "(q, Violation sn fl mn) \<notin> site_reports ctx' cs" for ctx' cs
    by (auto simp: site_reports_def missing_def double_locks_def missing_diag_def double_diag_def key_diag_def)
  ultimately obtain key guard obs where x: "(key, guard, obs) \<in> guarded_obs ?i"
      "(q, Violation sn fl mn) \<in> violations ?i (key, guard, obs)"
    using later_access_kinds [OF parts(2), of "(q, Violation sn fl mn)"] d some(3) by auto
  then have v: "needs_guard (passProg p) key guard obs" "isConcurrent ?i (obsFunc obs)"
      "(q, Violation sn fl mn) \<in> field_diag ?i obs key guard Violation"
    by (auto simp: violations_def needs_guard_def guard_held_def P field_diag_def)
  moreover have "q = obsPos obs" using v(3) by (auto simp: field_diag_def)
  moreover have "isConcurrent ctx (obsFunc obs)"
    using v(2) same_core_invariant(2) [OF same_core_later] by (simp add: some(3))
  ultimately show ?thesis
    using obs_unguarded [OF agree some(2) x(1)] by (auto simp: field_diag_def P some(3))
qed

lemma missing_at_site:
  assumes "same_core ctx ctx'" and "(q, MissingLockAtCallSite n g reasons) \<in> site_reports ctx' cs"
  obtains m where "Callee cs \<in> requirers ctx m" "\<not> callerHoldsMutex cs m" "isConcurrent ctx (Caller cs)" "q = csPos cs"
    "n = mutexFieldKeyName (prog_of ctx) m" "g = fnName (func_at (prog_of ctx) (Callee cs))"
  using assms(2) same_core_invariant(2, 4) [OF assms(1)] assms(1)
  by (auto simp: site_reports_def missing_def double_locks_def missing_diag_def double_diag_def key_diag_def same_core_def)

text \<open>Where a requirement comes from.\<close>

lemma requirement_source:
  assumes agree: "\<forall>fn \<in> set (SrcFuncs p). agreeing (passProg p) fn"
    and c: "collectObservations (parseAnnotations (newPassContext p)) = Some c" "ctx = laterPhases (importFacts c)"
    and g: "g \<in> requirers (inferPhases (importFacts c)) m"
  shows "\<exists>f. (f, g) \<in> (req_rel ctx m)\<^sup>* \<and>
    ((\<exists>q' key guard. unguarded_access p ctx f q' key guard \<and> m = guard_key key guard) \<or> imported_requirement p f m)"
proof -
  let ?c = "importFacts c"
  let ?i = "inferPhases ?c" and ?der = "deriveInitialRequirements (inferGuards ?c)"
  note parts = collected_kinds [OF c(1)]
  have der: "pass ?der = p" "callSites ?der = callSites c"
    by (simp_all add: facts_only_same [OF facts_only_derive]) (simp_all add: inferGuards_def parts(3))
  have "requirers ?i m = requirers (propagateRequirements ?der) m"
    by (simp add: inferPhases_def requirers_def factsOf_def)
  with g propagate_requires_sound obtain f where f: "f \<in> requirers ?der m" "(f, g) \<in> (req_rel ?der m)\<^sup>*" by blast
  have rel: "req_rel ?der m = req_rel ctx m"
    unfolding c(2) same_core_fields(4) [OF same_core_later] by (simp add: req_rel_def der infer_frame parts(3))
  have "f \<notin> requirers c m" using parts(1) by (simp add: requirers_def walk_kinds_def)
  then have "imported_requirement p f m" if "f \<in> requirers (inferGuards ?c) m"
    using that requirers_import [of f c m] by (simp add: requirers_def factsOf_def inferGuards_def parts(3))
  moreover have "\<exists>q' key guard. unguarded_access p ctx f q' key guard \<and> m = guard_key key guard"
    if key: "gm_get (guards (inferGuards ?c)) key = Some guard" "obs \<in> set (gm_slice (observations (inferGuards ?c)) key)"
      "obsFunc obs = f" "needs_guard (prog_of (inferGuards ?c)) key guard obs" "m = guard_key key guard" for key guard obs
  proof -
    have "(key, guard, obs) \<in> guarded_obs ?i" "needs_guard (passProg p) key guard obs"
      using key by (simp_all add: guarded_obs_def infer_frame inferGuards_def parts(3))
    from obs_unguarded [OF agree c(1) this] key(3, 5) show ?thesis by (auto simp: c(2))
  qed
  ultimately show ?thesis using f unfolding deriveInitialRequirements_spec rel by blast
qed

lemma missing_lock_real:
  assumes agree: "\<forall>fn \<in> set (SrcFuncs p). agreeing (passProg p) fn" and run: "run p = Some ctx"
    and d: "(q, MissingLockAtCallSite n g reasons) \<in> set (diagnostics ctx)"
  shows "\<exists>m fn callee f i s. fn \<in> set (SrcFuncs p) \<and> isConcurrent ctx fn \<and>
    reaches (passProg p) (func_at (passProg p) fn) i s \<and> static_call (passProg p) i callee q \<and>
    \<not> key_held (passProg p) s m \<and> n = mutexFieldKeyName (passProg p) m \<and> g = fnName (func_at (passProg p) callee) \<and>
    (f, callee) \<in> (req_rel ctx m)\<^sup>* \<and>
    ((\<exists>q' key guard. unguarded_access p ctx f q' key guard \<and> m = guard_key key guard) \<or> imported_requirement p f m)"
  using run
proof (cases rule: run_phases)
  case none
  with d show ?thesis by (simp add: newPassContext_def)
next
  case (some c)
  let ?c = "importFacts c" and ?d = "(q, MissingLockAtCallSite n g reasons)"
  let ?i = "inferPhases ?c"
  note parts = collected_kinds [OF some(2)]
  have "?d \<notin> set (diagnostics ?c)" using parts(1) by (auto simp: walk_kinds_def)
  moreover have "?d \<notin> violations ?i x" for x by (auto simp: violations_def field_diag_def split: prod.splits)
  ultimately obtain cs ctx' where cs: "cs \<in> set (callSites c)" "same_core ?i ctx'" "?d \<in> site_reports ctx' cs"
    using later_access_kinds [OF parts(2), of ?d] d some(3) by auto
  obtain m where m: "Callee cs \<in> requirers ?i m" "\<not> callerHoldsMutex cs m" "isConcurrent ?i (Caller cs)"
      "q = csPos cs" "n = mutexFieldKeyName (passProg p) m" "g = fnName (func_at (passProg p) (Callee cs))"
    using missing_at_site [OF cs(2, 3)] by (auto simp: infer_frame parts(3))
  obtain i s where "Caller cs \<in> set (SrcFuncs p)" "reaches (passProg p) (func_at (passProg p) (Caller cs)) i s"
      "static_call (passProg p) i (Callee cs) (csPos cs)" "\<not> key_held (passProg p) s m"
    using collected_calls(1) [OF _ some(2) _ cs(1)] agree m(2) unfolding fresh_context by auto
  moreover have "isConcurrent ctx (Caller cs)"
    using m(3) same_core_invariant(2) [OF same_core_later] by (simp add: some(3))
  ultimately show ?thesis using m(4-6) requirement_source [OF agree some(2, 3) m(1)] by blast
qed

section \<open>Accesses on paths are reported\<close>

lemma observable_struct:
  assumes "observable P acc"
  obtains fs where "Underlying P (Named (fk_StructType (acc_key acc))) = Struct fs" "fk_FieldIndex (acc_key acc) < length fs"
  using assms by (auto simp: observable_def acc_key_def split: prod.splits option.splits)

theorem path_access_reported:
  assumes agree: "\<forall>fn \<in> set (SrcFuncs p). agreeing (passProg p) fn"
    and few: "card (set (SrcFuncs p)) \<le> maxIterations" and run: "run p = Some ctx" and ssa: "hasSSA p"
    and path: "fn \<in> set (SrcFuncs p)" "reaches (passProg p) (func_at (passProg p) fn) i s"
    and acc: "field_access (passProg p) i q isRead base key"
    and guard: "gm_get (guards ctx) key = Some guard" "\<not> isConstructorLike (passProg p) fn (fk_StructType key)"
    and alone: "\<forall>fn' \<in> set (SrcFuncs p). \<forall>i' s' base'. reaches (passProg p) (func_at (passProg p) fn') i' s' \<longrightarrow>
      accesses_at (passProg p) i' q isRead base' key \<longrightarrow> fn' = fn \<and> MutexFieldIndex guard \<notin> base_held base' s'"
    and mutex: "\<forall>fs. Underlying (passProg p) (Named (fk_StructType key)) = Struct fs \<longrightarrow> MutexFieldIndex guard < length fs"
    and root: "(fn, r) \<in> (req_rel ctx (guard_key key guard))\<^sup>*" "\<not> hasCallers ctx r" "isConcurrent ctx r"
      "\<forall>q'. \<not> isSuppressed ctx r q'"
  shows "(\<exists>sn fl mn. r = fn \<and> (q, Violation sn fl mn) \<in> set (diagnostics ctx)) \<or>
    (\<exists>cs \<in> set (callSites ctx). Caller cs = r \<and> (\<exists>n g reasons.
      (csPos cs, MissingLockAtCallSite n g reasons) \<in> set (diagnostics ctx)))"
  using run
proof (cases rule: run_phases)
  case none
  with ssa show ?thesis by simp
next
  case (some c)
  let ?P = "passProg p" and ?c = "importFacts c"
  let ?i = "inferPhases ?c"
  note parts = collected_kinds [OF some(2)]
  have core: "same_core ?i ctx" unfolding some(3) by (rule same_core_later)
  note fields = same_core_fields [OF core] and same = same_core_invariant [OF core]
  have P: "pass ?i = p" by (simp add: infer_frame parts(3))
  obtain obs where obs: "obs \<in> set (gm_slice (observations c) key)" "obsPos obs = q" "IsRead obs = isRead"
    using collected_observations(2) [OF _ some(2), unfolded fresh_context] agree path acc by blast
  obtain i' s' base' where obs': "obsFunc obs \<in> set (SrcFuncs p)" "reaches ?P (func_at ?P (obsFunc obs)) i' s'"
      "accesses_at ?P i' q isRead base' key" "hmf_FieldIndex ` set (SameBaseMutexFields obs) = base_held base' s'"
    using collected_observations(1) [OF _ some(2) _ _ obs(1), unfolded fresh_context] agree obs(2, 3) by auto
  then have fn: "obsFunc obs = fn" "MutexFieldIndex guard \<notin> base_held base' s'" using alone by blast+
  have gobs: "(key, guard, obs) \<in> guarded_obs ?i" "needs_guard (prog_of ?i) key guard obs"
    using obs(1) guard fields(3) obs'(4) fn by (simp_all add: guarded_obs_def needs_guard_def infer_frame parts(3))
  have "Caller ` set (callSites ?c) \<subseteq> set (SrcFuncs p)"
    using collected_calls(1) [OF _ some(2), unfolded fresh_context] agree by auto
  then have "card (Caller ` set (callSites ?c)) \<le> maxIterations" using few card_mono [OF finite_set] order_trans by blast
  moreover obtain fs where "Underlying ?P (Named (fk_StructType key)) = Struct fs" "fk_FieldIndex key < length fs"
    using acc observable_struct unfolding field_access_def by metis
  ultimately show ?thesis
    using unguarded_access_reported [of ?c key guard obs r fs] gobs root mutex fn(1) obs(2)
    unfolding some(3) [symmetric] same fields P by (simp add: fields)
qed

end
