(* ===== verification/Fact_Exchange.thy ===== *)
theory Fact_Exchange
  imports Facts
begin

text \<open>
  What one package exports (\<open>exportFieldGuardFacts\<close>, \<open>exportFuncLockFacts\<close> of \<open>pkg/analyzer/facts.go\<close>)
  and another imports. The driver hands the facts of the exporting pass \<open>a\<close> to the importing pass \<open>b\<close>
  by object; each pass has its own tables, so that a type or a function has a number in each.
\<close>

section \<open>Guards of exported types\<close>

definition hands_over_types :: "passContext \<Rightarrow> passContext \<Rightarrow> bool" where
  "hands_over_types a b \<longleftrightarrow> exportedTypeFacts a = [] \<and>
    ImportTypeFact (pass b) = gm_get (exportedTypeFacts (exportFieldGuardFacts a))"

lemma exported_from_guardsByType:
  assumes "exportedTypeFacts ctx = []" and "gm_get (exportedTypeFacts (exportFieldGuardFacts ctx)) i = Some fct"
  shows "\<exists>n. gm_get (guardsByType ctx) n = Some fct"
proof -
  let ?put = "\<lambda>(n, fct) out. gm_put out (objIdent (named_at (prog_of ctx) n)) fct"
  have "gm_get (fold ?put kvs out) i = Some fct \<Longrightarrow> gm_get out i = Some fct \<or> (\<exists>n. (n, fct) \<in> set kvs)" for kvs out
  proof (induction kvs arbitrary: out)
    case (Cons kv kvs)
    then show ?case by (cases kv) (fastforce split: if_splits)
  qed simp
  from this [of "shuffle (rangeOrder (pass ctx) ''exportFieldGuardFacts'' 0) (guardsByType ctx)" "exportedTypeFacts ctx"]
    assms show ?thesis
    by (auto simp: exportFieldGuardFacts_def Let_def gm_get_Some_in [OF gm_ok_guardsByType])
qed

lemma guard_handed_over:
  assumes hand: "hands_over_types a b"
    and a: "gm_ok (guards a)" "exportedType a n" "gm_get (guards a) (field_key n i) = Some g"
      "inj_on (\<lambda>n. objIdent (named_at (prog_of a) n)) (set (gm_keys (guardsByType a)))"
    and b: "objIdent (named_at (prog_of b) m) = objIdent (named_at (prog_of a) n)"
      "obj_pkg (prog_of b) m \<noteq> Some (passPkg (pass b))"
      "\<exists>key \<in> set (gm_keys (observations b)). fk_StructType key = m"
  shows "gm_get (guards (importFieldGuardFacts b)) (field_key m i) = Some g"
proof -
  have imported: "imported_guard (typeGuards (guardsByType a) n) i = Some g"
    using a by (simp add: imported_guardsByType)
  then obtain fct where fct: "gm_get (guardsByType a) n = Some fct"
    by (auto simp: typeGuards_def imported_guard_def emptyFieldGuardFact_def split: option.splits)
  have facts: "ImportTypeFact (pass b) j = gm_get (exportedTypeFacts (exportFieldGuardFacts a)) j" for j
    using hand by (simp add: hands_over_types_def)
  show ?thesis
  proof (rule get_importFieldGuardFacts)
    fix j f assume "ImportTypeFact (pass b) j = Some f"
    then show "gm_ok (factGuards f)"
      using exported_from_guardsByType [of a j f] hand gm_ok_factGuards
      by (auto simp: facts hands_over_types_def)
  next
    show "ImportTypeFact (pass b) (objIdent (named_at (prog_of b) (fk_StructType (field_key m i)))) = Some fct"
      using exportFieldGuardFacts_get [OF fct a(4)] b(1) by (simp add: facts field_key_def)
  qed (use b imported fct in \<open>auto simp: field_key_def typeGuards_def\<close>)
qed

section \<open>Locks of exported functions\<close>

text \<open>The mutex field that a mutex field of one pass is in another.\<close>

definition same_mutex :: "passContext \<Rightarrow> passContext \<Rightarrow> mutexFieldKey \<Rightarrow> mutexFieldKey \<Rightarrow> bool" where
  "same_mutex a b k k' \<longleftrightarrow> mutexRefToKey b (mutexFieldKeyToRef (prog_of a) k) = Some k'"

lemma addRefs_translated:
  "set (addRefs b (mutexFieldKeySetToRefs (prog_of a) ks) s) = set s \<union> {k'. \<exists>k \<in> set ks. same_mutex a b k k'}"
  by (auto simp: set_addRefs set_mutexFieldKeySetToRefs same_mutex_def)

lemma func_facts_handed_over:
  assumes a: "gm_ok (funcFacts a)" "gm_get (funcFacts a) fn = Some facts" "exportable a fn = Some obj"
      "Requires facts \<noteq> [] \<or> Acquires facts \<noteq> [] \<or> AcquiresTransitive facts \<noteq> [] \<or> ReturnsHolding facts \<noteq> []"
      "\<forall>g obj'. g \<in> set (gm_keys (funcFacts a)) \<longrightarrow> exportable a g = Some obj' \<longrightarrow> foIdent obj' = foIdent obj \<longrightarrow> g = fn"
    and hand: "ImportFuncFact (pass b) = gm_get (exportedFuncFacts (exportFuncLockFacts a))"
    and b: "callee \<in> Callee ` set (callSites b)" "fnObject (func_at (prog_of b) callee) = Some obj'"
      "foIdent obj' = foIdent obj" "foPkg obj' \<noteq> Some (passPkg (pass b))"
  shows "set (Requires (factsOf (importFuncLockFacts b) callee)) =
      set (Requires (factsOf b callee)) \<union> {k'. \<exists>k \<in> set (Requires facts). same_mutex a b k k'}"
    and "set (Acquires (factsOf (importFuncLockFacts b) callee)) =
      set (Acquires (factsOf b callee)) \<union> {k'. \<exists>k \<in> set (Acquires facts). same_mutex a b k k'}"
    and "set (AcquiresTransitive (factsOf (importFuncLockFacts b) callee)) =
      set (AcquiresTransitive (factsOf b callee)) \<union> {k'. \<exists>k \<in> set (AcquiresTransitive facts). same_mutex a b k k'}"
    and "set (ReturnsHolding (factsOf (importFuncLockFacts b) callee)) =
      set (ReturnsHolding (factsOf b callee)) \<union> {k'. \<exists>k \<in> set (ReturnsHolding facts). same_mutex a b k k'}"
proof -
  have "gm_get (exportedFuncFacts (exportFuncLockFacts a)) (foIdent obj) = Some (toFuncLockFact (prog_of a) facts)"
    using a by (intro exportFuncLockFacts_get) blast+
  then have "factsOf (importFuncLockFacts b) callee = mergeFact b (toFuncLockFact (prog_of a) facts) (factsOf b callee)"
    using b by (intro factsOf_importFuncLockFacts [where obj = obj']) (simp_all add: hand)
  then show "set (Requires (factsOf (importFuncLockFacts b) callee)) =
      set (Requires (factsOf b callee)) \<union> {k'. \<exists>k \<in> set (Requires facts). same_mutex a b k k'}"
    "set (Acquires (factsOf (importFuncLockFacts b) callee)) =
      set (Acquires (factsOf b callee)) \<union> {k'. \<exists>k \<in> set (Acquires facts). same_mutex a b k k'}"
    "set (AcquiresTransitive (factsOf (importFuncLockFacts b) callee)) =
      set (AcquiresTransitive (factsOf b callee)) \<union> {k'. \<exists>k \<in> set (AcquiresTransitive facts). same_mutex a b k k'}"
    "set (ReturnsHolding (factsOf (importFuncLockFacts b) callee)) =
      set (ReturnsHolding (factsOf b callee)) \<union> {k'. \<exists>k \<in> set (ReturnsHolding facts). same_mutex a b k k'}"
    by (simp_all add: mergeFact_def toFuncLockFact_def addRefs_translated)
qed

end
