(* ===== verification/Walk_Diverges.thy ===== *)
theory Walk_Diverges
  imports Golintmu
begin

text \<open>
  The walk of \<open>pkg/analyzer/ssawalk.go\<close> need not return. Which calls of \<open>walkBlock\<close> are made depends
  only on the entry states: \<open>entry_step\<close> is the walk without the pass context. On the following
  function, which swaps two locks in a loop after an unbalanced branch, the stored states alternate
  for ever, since a state that is stored on a later visit is changed by the instructions of its block:

    \<^verbatim>\<open>func (t *T) f() {\<close>
    \<^verbatim>\<open>  t.b.Lock(); if c() { t.x.Lock() }\<close>
    \<^verbatim>\<open>  for { t.b.Unlock(); t.a.Lock(); if d() { work() }; t.a.Unlock(); t.b.Lock(); if e() { break } } }\<close>
\<close>

section \<open>The entry states decide the walk\<close>

definition entry_step ::
    "prog \<Rightarrow> ssa_func \<Rightarrow> (nat, lockState) gomap \<Rightarrow> walkCall \<Rightarrow> (nat, lockState) gomap \<times> walkCall list" where
  "entry_step P f es call =
    (case call of (b, frm, ls) \<Rightarrow>
       if length (Blocks f) \<le> b then (es, [])
       else case gm_get es b of
           None \<Rightarrow> (gm_put es b (fork ls),
             map (\<lambda>succ. (succ, Some b, fork (block_state P f b ls))) (Succs (Blocks f ! b)))
         | Some st \<Rightarrow>
             let merged = intersect st ls in
             if equalHeld ls st \<or> equalHeld merged st then (es, [])
             else (gm_put (gm_put es b merged) b (block_state P f b merged),
               map (\<lambda>succ. (succ, Some b, fork (block_state P f b merged))) (Succs (Blocks f ! b))))"

lemma enterBlock_pass: "enterBlock f ctx w b frm ls = (ctx1, w1, r) \<Longrightarrow> pass ctx1 = pass ctx"
  by (auto simp: enterBlock_def Let_def only_reports_frame(1) [OF only_reports_inconsistent]
      split: option.splits if_splits)

lemma walkStep_entry:
  assumes "walkStep f ctx w call = (ctx', w', new)"
  shows "pass ctx' = pass ctx" and "(entryStates w', new) = entry_step (prog_of ctx) f (entryStates w) call"
proof -
  obtain b frm ls where call: "call = (b, frm, ls)" using prod_cases3 by blast
  obtain ctx1 w1 r where e: "enterBlock f ctx w b frm ls = (ctx1, w1, r)" using prod_cases3 by blast
  note p = enterBlock_pass [OF e]
  show "pass ctx' = pass ctx"
    using assms e p processBlock_result(1) [of ctx1 "wc_fn w1" "Instrs (Blocks f ! b)"]
    by (auto simp: walkStep_def call split: if_splits option.splits prod.splits) (metis fst_conv)
  show "(entryStates w', new) = entry_step (prog_of ctx) f (entryStates w) call"
  proof (cases r)
    case None
    with assms e show ?thesis
      by (auto simp: walkStep_def call entry_step_def enterBlock_def Let_def split: if_splits option.splits)
  next
    case (Some ls1)
    obtain ctx2 ls2 where "processBlock ctx1 (wc_fn w1) (Instrs (Blocks f ! b)) ls1 = (ctx2, ls2)" by fastforce
    moreover from this have "ls2 = block_state (prog_of ctx) f b ls1"
      using processBlock_result(2) [of ctx1 "wc_fn w1" "Instrs (Blocks f ! b)" ls1] p by (simp add: block_state_def)
    ultimately show ?thesis using assms e Some
      by (auto simp: walkStep_def call entry_step_def enterBlock_def storeEntry_def Let_def
          split: if_splits option.splits)
  qed
qed

text \<open>A set of states that the walk never leaves, none of them with an empty stack.\<close>

lemma walkBlocks_diverges:
  assumes closed: "\<And>es pending. stuck es pending \<Longrightarrow> pending \<noteq> [] \<and>
      (case entry_step P f es (hd pending) of (es', new) \<Rightarrow> stuck es' (new @ tl pending))"
    and "prog_of ctx = P" and "stuck (entryStates w) pending"
  shows "walkBlocks f ctx w pending = None"
proof -
  have "prog_of ctx = P \<Longrightarrow> \<not> stuck (entryStates w) pending" if "walkBlocks f ctx w pending = Some r" for r
    using that
  proof (induction rule: walkBlocks_induct)
    case (Nil ctx w)
    then show ?case using closed by blast
  next
    case (Cons ctx w call pending ctx' w' new r)
    note st = walkStep_entry [OF Cons.hyps(1)]
    show ?case using closed [of "entryStates w" "call # pending"] Cons.IH Cons.prems st(1)
      by (auto simp flip: st(2))
  qed
  with assms(2, 3) show ?thesis by (meson not_Some_eq)
qed

lemma walkBlocks_entry_step:
  assumes "entry_step (prog_of ctx) f (entryStates w) call = (es, new)"
    and "\<And>ctx' w'. pass ctx' = pass ctx \<Longrightarrow> entryStates w' = es \<Longrightarrow> walkBlocks f ctx' w' (new @ pending) = None"
  shows "walkBlocks f ctx w (call # pending) = None"
proof -
  obtain ctx' w' new' where st: "walkStep f ctx w call = (ctx', w', new')" using prod_cases3 by blast
  from walkStep_entry [OF this] assms show ?thesis by (simp add: walkBlocks_Cons st)
qed

section \<open>The function\<close>

definition hoh_call :: "func \<Rightarrow> val \<Rightarrow> call_common" where
  "hoh_call callee recv = \<lparr>IsInvoke = False, ccMethod = None, ccValue = 0, StaticCallee = Some callee,
    Args = [recv]\<rparr>"

definition hoh_blocks :: "basic_block list" where
  "hoh_blocks =
    [\<lparr>Instrs = [ICall 11 (hoh_call 1 2)], Succs = [1, 2], Preds = []\<rparr>,
     \<lparr>Instrs = [ICall 12 (hoh_call 1 3)], Succs = [2], Preds = [0]\<rparr>,
     \<lparr>Instrs = [ICall 13 (hoh_call 2 2), ICall 14 (hoh_call 1 1)], Succs = [3, 4], Preds = [0, 1, 4]\<rparr>,
     \<lparr>Instrs = [IOther 15], Succs = [4], Preds = [2]\<rparr>,
     \<lparr>Instrs = [ICall 16 (hoh_call 2 1), ICall 17 (hoh_call 1 2)], Succs = [2, 5], Preds = [2, 3]\<rparr>,
     \<lparr>Instrs = [IReturn 18], Succs = [], Preds = [4]\<rparr>]"

definition hoh_func :: ssa_func where
  "hoh_func = \<lparr>fnName = ''f'', Blocks = hoh_blocks, sigRecv = Some (Pointer (Named 0)), sigParams = [],
    sigResults = [], fnPos = 10, fnObject = Some \<lparr>foIdent = 0, foPkg = Some 0, foExported = False\<rparr>,
    fnPackage = Some 0, Dominates = (\<lambda>to from. to = from \<or> to = 0 \<or> to = 2 \<and> 2 < from \<or> to = 4 \<and> from = 5)\<rparr>"

definition hoh_method :: "string \<Rightarrow> ssa_func" where
  "hoh_method name = \<lparr>fnName = name, Blocks = [], sigRecv = Some (Pointer (Named 1)), sigParams = [],
    sigResults = [], fnPos = 0, fnObject = None, fnPackage = Some 1, Dominates = (\<lambda>_ _. False)\<rparr>"

definition hoh_prog :: prog where
  "hoh_prog =
    \<lparr>namedTab =
      [\<lparr>objIdent = 0, objName = ''T'', objPkg = Some 0, objExported = True, underlyingType = Struct
          [GoField ''a'' (Named 1) False False 2, GoField ''b'' (Named 1) False False 3,
           GoField ''x'' (Named 1) False False 4], identClass = 0\<rparr>,
       \<lparr>objIdent = 1, objName = ''Mutex'', objPkg = Some 1, objExported = True, underlyingType = Struct [],
         identClass = 1\<rparr>],
     pkgTab = [\<lparr>pkgPath = ''main'', pkgImports = [1], pkgScope = [(''T'', TypeName (Named 0))]\<rparr>,
       \<lparr>pkgPath = ''sync'', pkgImports = [], pkgScope = [(''Mutex'', TypeName (Named 1))]\<rparr>],
     valTab = [\<lparr>vKind = OtherValue, vType = Pointer (Named 0)\<rparr>,
       \<lparr>vKind = FieldAddr 0 0, vType = Pointer (Named 1)\<rparr>,
       \<lparr>vKind = FieldAddr 0 1, vType = Pointer (Named 1)\<rparr>,
       \<lparr>vKind = FieldAddr 0 2, vType = Pointer (Named 1)\<rparr>],
     funcTab = [hoh_func, hoh_method ''Lock'', hoh_method ''Unlock'']\<rparr>"

definition hoh_pass :: apass where
  "hoh_pass = \<lparr>hasSSA = True, passProg = hoh_prog, passPkg = 0,
    Fset = (\<lambda>p. \<lparr>Filename = ''t.go'', Line = p, Column = 1\<rparr>), Files = [], SrcFuncs = [0],
    nFactTypes = 3, ImportTypeFact = (\<lambda>_. None), ImportFuncFact = (\<lambda>_. None),
    ImportConcurrentFact = (\<lambda>_. False), verboseFlag = False, rangeOrder = (\<lambda>_ _ _. 0)\<rparr>"

definition hoh_ref :: "nat \<Rightarrow> lockRef" where
  "hoh_ref i = \<lparr>lr_kind = fieldLock, lr_base = 0, lr_fieldIndex = i\<rparr>"

lemma hoh_call_lock:
  "call_lock hoh_prog (hoh_call 1 1) = Some (hoh_ref 0, ''Lock'')"
  "call_lock hoh_prog (hoh_call 1 2) = Some (hoh_ref 1, ''Lock'')"
  "call_lock hoh_prog (hoh_call 1 3) = Some (hoh_ref 2, ''Lock'')"
  "call_lock hoh_prog (hoh_call 2 1) = Some (hoh_ref 0, ''Unlock'')"
  "call_lock hoh_prog (hoh_call 2 2) = Some (hoh_ref 1, ''Unlock'')"
  by code_simp+

definition hoh_at :: "nat \<Rightarrow> pos \<Rightarrow> lockState" where
  "hoh_at i p = lock newLockState (hoh_ref i) True p"

lemma hoh_block_state:
  "block_state hoh_prog hoh_func 2 newLockState = hoh_at 0 14"
  "block_state hoh_prog hoh_func 4 newLockState = hoh_at 1 17"
  by code_simp+

lemma hoh_merge:
  "equalHeld (hoh_at 1 17) (hoh_at 0 14) = False" "equalHeld (hoh_at 0 14) (hoh_at 1 17) = False"
  "equalHeld newLockState (hoh_at 0 14) = False" "equalHeld newLockState (hoh_at 1 17) = False"
  "equalHeld (hoh_at 0 14) (hoh_at 0 14) = True"
  "intersect (hoh_at 0 14) (hoh_at 1 17) = newLockState" "intersect (hoh_at 1 17) (hoh_at 0 14) = newLockState"
  by code_simp+

definition hoh_stuck :: "(nat, lockState) gomap \<Rightarrow> walkCall list \<Rightarrow> bool" where
  "hoh_stuck es pending \<longleftrightarrow> gm_get es 2 = Some (hoh_at 0 14) \<and> gm_get es 3 = Some (hoh_at 0 14) \<and>
    gm_get es 4 = Some (hoh_at 1 17) \<and>
    (pending \<noteq> [] \<and> hd pending = (2, Some 4, hoh_at 1 17) \<or>
     take 2 pending = [(3, Some 2, hoh_at 0 14), (4, Some 2, hoh_at 0 14)] \<or>
     pending \<noteq> [] \<and> hd pending = (4, Some 2, hoh_at 0 14))"

lemma hoh_fork [simp]: "fork (hoh_at i p) = hoh_at i p"
  by (simp add: hoh_at_def)

lemma hoh_succs:
  "length (Blocks hoh_func) = 6" "Succs (Blocks hoh_func ! 2) = [3, 4]" "Succs (Blocks hoh_func ! 4) = [2, 5]"
  by code_simp+

lemma hoh_steps:
  "gm_get es 2 = Some (hoh_at 0 14) \<Longrightarrow> entry_step hoh_prog hoh_func es (2, Some 4, hoh_at 1 17) =
    (gm_put (gm_put es 2 newLockState) 2 (hoh_at 0 14), [(3, Some 2, hoh_at 0 14), (4, Some 2, hoh_at 0 14)])"
  "gm_get es 3 = Some (hoh_at 0 14) \<Longrightarrow> entry_step hoh_prog hoh_func es (3, Some 2, hoh_at 0 14) = (es, [])"
  "gm_get es 4 = Some (hoh_at 1 17) \<Longrightarrow> entry_step hoh_prog hoh_func es (4, Some 2, hoh_at 0 14) =
    (gm_put (gm_put es 4 newLockState) 4 (hoh_at 1 17), [(2, Some 4, hoh_at 1 17), (5, Some 4, hoh_at 1 17)])"
  by (simp_all add: entry_step_def hoh_merge hoh_block_state hoh_succs Let_def del: One_nat_def)

lemma hoh_stuck_closed:
  assumes "hoh_stuck es pending"
  shows "pending \<noteq> [] \<and> (case entry_step hoh_prog hoh_func es (hd pending) of
      (es', new) \<Rightarrow> hoh_stuck es' (new @ tl pending))"
proof -
  from assms consider "pending \<noteq> []" "hd pending = (2, Some 4, hoh_at 1 17)"
    | "take 2 pending = [(3, Some 2, hoh_at 0 14), (4, Some 2, hoh_at 0 14)]"
    | "pending \<noteq> []" "hd pending = (4, Some 2, hoh_at 0 14)" by (auto simp: hoh_stuck_def)
  then show ?thesis
  proof cases
    case 1
    then show ?thesis using assms hoh_steps(1) [of es] by (cases pending) (simp_all add: hoh_stuck_def)
  next
    case 2
    then have "pending = (3, Some 2, hoh_at 0 14) # (4, Some 2, hoh_at 0 14) # drop 2 pending"
      by (metis append_Cons append_Nil append_take_drop_id)
    then obtain rest where "pending = (3, Some 2, hoh_at 0 14) # (4, Some 2, hoh_at 0 14) # rest" ..
    then show ?thesis using assms hoh_steps(2) [of es] unfolding hoh_stuck_def by simp
  next
    case 3
    then show ?thesis using assms hoh_steps(3) [of es] by (cases pending) (simp_all add: hoh_stuck_def)
  qed
qed

section \<open>The first steps\<close>

fun entry_walk ::
    "prog \<Rightarrow> ssa_func \<Rightarrow> nat \<Rightarrow> (nat, lockState) gomap \<Rightarrow> walkCall list \<Rightarrow>
      (nat, lockState) gomap \<times> walkCall list" where
  "entry_walk P f (Suc n) es (call # pending) =
    (case entry_step P f es call of (es', new) \<Rightarrow> entry_walk P f n es' (new @ pending))"
| "entry_walk P f n es pending = (es, pending)"

lemma walkBlocks_entry_walk:
  assumes "entry_walk (prog_of ctx) f n (entryStates w) pending = (es, pending')"
    and "\<And>ctx' w'. pass ctx' = pass ctx \<Longrightarrow> entryStates w' = es \<Longrightarrow> walkBlocks f ctx' w' pending' = None"
  shows "walkBlocks f ctx w pending = None"
  using assms
proof (induction n arbitrary: ctx w pending)
  case (Suc n)
  show ?case
  proof (cases pending)
    case (Cons call rest)
    obtain es1 new where st: "entry_step (prog_of ctx) f (entryStates w) call = (es1, new)" by fastforce
    show ?thesis unfolding Cons
    proof (rule walkBlocks_entry_step [OF st])
      fix ctx' :: passContext and w' :: walkContext
      assume same: "pass ctx' = pass ctx" "entryStates w' = es1"
      then show "walkBlocks f ctx' w' (new @ rest) = None"
        using Suc.prems by (intro Suc.IH [of ctx' w']) (simp_all add: Cons st)
    qed
  qed (use Suc.prems(1) Suc.prems(2) [of ctx w] in simp)
qed (metis entry_walk.simps(2) prod.inject)

lemma hoh_reaches_stuck:
  "case entry_walk hoh_prog hoh_func 11 [] [(0, None, newLockState)] of (es, pending) \<Rightarrow> hoh_stuck es pending"
  by code_simp

lemma hoh_walk: "prog_of ctx = hoh_prog \<Longrightarrow> walkFunction ctx 0 = None"
proof -
  assume P: "prog_of ctx = hoh_prog"
  obtain es pending where stuck: "entry_walk hoh_prog hoh_func 11 [] [(0, None, newLockState)] = (es, pending)"
      "hoh_stuck es pending"
    using hoh_reaches_stuck by (auto split: prod.splits)
  have "walkBlocks hoh_func ctx (newWalkContext 0) [(0, None, newLockState)] = None"
  proof (rule walkBlocks_entry_walk [where n = 11])
    show "entry_walk (prog_of ctx) hoh_func 11 (entryStates (newWalkContext 0)) [(0, None, newLockState)] = (es, pending)"
      using stuck(1) P by (simp add: newWalkContext_def)
  next
    fix ctx' :: passContext and w' :: walkContext
    assume "pass ctx' = pass ctx" "entryStates w' = es"
    with P stuck(2) show "walkBlocks hoh_func ctx' w' pending = None"
      using hoh_stuck_closed by (intro walkBlocks_diverges [where stuck = hoh_stuck and P = hoh_prog]) auto
  qed
  moreover have "func_at hoh_prog 0 = hoh_func" "Blocks hoh_func \<noteq> []"
    by (simp_all add: func_at_def hoh_prog_def hoh_func_def hoh_blocks_def)
  ultimately show ?thesis by (simp add: walkFunction_def walkBlock_def P)
qed

end
