(* ===== verification/Example.thy ===== *)
theory Example
  imports Reports_Real Fact_Exchange Walk_Diverges
begin

text \<open>
  A small package in the tables of \<open>Go_Program\<close>, on which the properties of \<open>Spec2Isabelle\<close> are
  applied:

    \<^verbatim>\<open>type S struct { mu sync.Mutex; n int }\<close>
    \<^verbatim>\<open>func (s *S) inc(c bool) { if c { s.mu.Lock() }; s.n = 1; return }\<close>
    \<^verbatim>\<open>func top(s *S)          { s.inc(true); return }\<close>
    \<^verbatim>\<open>func (s *S) twice()     { s.mu.Lock(); s.mu.Lock(); return }\<close>
    \<^verbatim>\<open>func (s *S) fill()      { s.mu.Lock(); for c { s.n = 1 }; s.mu.Unlock(); return }\<close>
    \<^verbatim>\<open>func (s *S) clear()     { s.n = 1; return }\<close>
    \<^verbatim>\<open>func use(s *S)          { s.clear(); return }\<close>

  \<open>ex_state\<close> is a context as the first phase leaves it: \<open>fill\<close> writes \<open>n\<close> with \<open>mu\<close> held, \<open>inc\<close> writes
  it without, and \<open>top\<close> calls \<open>inc\<close> without a lock.
\<close>

definition ex_mutex :: named_info where
  "ex_mutex = \<lparr>objIdent = 1, objName = ''Mutex'', objPkg = Some 1, objExported = True,
    underlyingType = Struct [], identClass = 1\<rparr>"

definition ex_fields :: "gofield list" where
  "ex_fields = [GoField ''mu'' (Named 1) False False 2, GoField ''n'' (OtherType 0) False False 3]"

definition ex_struct :: named_info where
  "ex_struct = \<lparr>objIdent = 0, objName = ''S'', objPkg = Some 0, objExported = True,
    underlyingType = Struct ex_fields, identClass = 0\<rparr>"

definition ex_method :: "string \<Rightarrow> ssa_func" where
  "ex_method name = \<lparr>fnName = name, Blocks = [], sigRecv = Some (Pointer (Named 1)), sigParams = [],
    sigResults = [], fnPos = 0, fnObject = None, fnPackage = Some 1, Dominates = (\<lambda>_ _. False)\<rparr>"

definition ex_call :: "func \<Rightarrow> val \<Rightarrow> call_common" where
  "ex_call callee recv = \<lparr>IsInvoke = False, ccMethod = None, ccValue = 0, StaticCallee = Some callee,
    Args = [recv]\<rparr>"

definition ex_inc_blocks :: "basic_block list" where
  "ex_inc_blocks =
    [\<lparr>Instrs = [IOther 10], Succs = [1, 2], Preds = []\<rparr>,
     \<lparr>Instrs = [ICall 11 (ex_call 1 1)], Succs = [3], Preds = [0]\<rparr>,
     \<lparr>Instrs = [IOther 12], Succs = [3], Preds = [0]\<rparr>,
     \<lparr>Instrs = [IStore 13 2 0, IReturn 14], Succs = [], Preds = [1, 2]\<rparr>]"

definition ex_inc :: ssa_func where
  "ex_inc = \<lparr>fnName = ''inc'', Blocks = ex_inc_blocks, sigRecv = Some (Pointer (Named 0)),
    sigParams = [OtherType 1], sigResults = [], fnPos = 9,
    fnObject = Some \<lparr>foIdent = 0, foPkg = Some 0, foExported = False\<rparr>, fnPackage = Some 0,
    Dominates = (\<lambda>_ _. False)\<rparr>"

definition ex_top :: ssa_func where
  "ex_top = \<lparr>fnName = ''top'', Blocks = [\<lparr>Instrs = [ICall 20 (ex_call 0 3), IReturn 21], Succs = [], Preds = []\<rparr>],
    sigRecv = None, sigParams = [Pointer (Named 0)], sigResults = [], fnPos = 19,
    fnObject = Some \<lparr>foIdent = 3, foPkg = Some 0, foExported = True\<rparr>, fnPackage = Some 0,
    Dominates = (\<lambda>_ _. False)\<rparr>"

definition ex_fill :: ssa_func where
  "ex_fill = \<lparr>fnName = ''fill'', Blocks =
      [\<lparr>Instrs = [ICall 31 (ex_call 1 1)], Succs = [1], Preds = []\<rparr>,
       \<lparr>Instrs = [IOther 32], Succs = [2, 3], Preds = [0, 2]\<rparr>,
       \<lparr>Instrs = [IStore 33 2 0], Succs = [1], Preds = [1]\<rparr>,
       \<lparr>Instrs = [ICall 34 (ex_call 2 1), IReturn 35], Succs = [], Preds = [1]\<rparr>],
    sigRecv = Some (Pointer (Named 0)), sigParams = [], sigResults = [], fnPos = 30,
    fnObject = Some \<lparr>foIdent = 4, foPkg = Some 0, foExported = False\<rparr>, fnPackage = Some 0,
    Dominates = (\<lambda>to from. to = 0 \<or> to = 1 \<and> from \<noteq> 0 \<or> to = from)\<rparr>"

definition ex_twice :: ssa_func where
  "ex_twice = \<lparr>fnName = ''twice'', Blocks =
      [\<lparr>Instrs = [ICall 41 (ex_call 1 1), ICall 42 (ex_call 1 1), IReturn 43], Succs = [], Preds = []\<rparr>],
    sigRecv = Some (Pointer (Named 0)), sigParams = [], sigResults = [], fnPos = 40,
    fnObject = Some \<lparr>foIdent = 5, foPkg = Some 0, foExported = False\<rparr>, fnPackage = Some 0,
    Dominates = (\<lambda>to from. to = from)\<rparr>"

definition ex_clear :: ssa_func where
  "ex_clear = \<lparr>fnName = ''clear'', Blocks = [\<lparr>Instrs = [IStore 71 2 0, IReturn 72], Succs = [], Preds = []\<rparr>],
    sigRecv = Some (Pointer (Named 0)), sigParams = [], sigResults = [], fnPos = 70,
    fnObject = Some \<lparr>foIdent = 6, foPkg = Some 0, foExported = False\<rparr>, fnPackage = Some 0,
    Dominates = (\<lambda>to from. to = from)\<rparr>"

definition ex_use :: ssa_func where
  "ex_use = \<lparr>fnName = ''use'', Blocks = [\<lparr>Instrs = [ICall 81 (ex_call 6 3), IReturn 82], Succs = [], Preds = []\<rparr>],
    sigRecv = None, sigParams = [Pointer (Named 0)], sigResults = [], fnPos = 80,
    fnObject = Some \<lparr>foIdent = 7, foPkg = Some 0, foExported = False\<rparr>, fnPackage = Some 0,
    Dominates = (\<lambda>to from. to = from)\<rparr>"

definition ex_prog :: prog where
  "ex_prog =
    \<lparr>namedTab = [ex_struct, ex_mutex],
     pkgTab = [\<lparr>pkgPath = ''main'', pkgImports = [1], pkgScope = [(''S'', TypeName (Named 0))]\<rparr>,
       \<lparr>pkgPath = ''sync'', pkgImports = [], pkgScope = [(''Mutex'', TypeName (Named 1))]\<rparr>,
       \<lparr>pkgPath = ''user'', pkgImports = [0], pkgScope = []\<rparr>],
     valTab = [\<lparr>vKind = OtherValue, vType = Pointer (Named 0)\<rparr>,
       \<lparr>vKind = FieldAddr 0 0, vType = Pointer (Named 1)\<rparr>,
       \<lparr>vKind = FieldAddr 0 1, vType = Pointer (OtherType 0)\<rparr>,
       \<lparr>vKind = OtherValue, vType = Pointer (Named 0)\<rparr>],
     funcTab = [ex_inc, ex_method ''Lock'', ex_method ''Unlock'', ex_top, ex_fill, ex_twice, ex_clear, ex_use]\<rparr>"

definition ex_pass :: apass where
  "ex_pass = \<lparr>hasSSA = True, passProg = ex_prog, passPkg = 0,
    Fset = (\<lambda>p. \<lparr>Filename = ''a.go'', Line = p, Column = 1\<rparr>), Files = [], SrcFuncs = [0, 3, 4],
    nFactTypes = 3, ImportTypeFact = (\<lambda>_. None), ImportFuncFact = (\<lambda>_. None),
    ImportConcurrentFact = (\<lambda>_. False), verboseFlag = False, rangeOrder = (\<lambda>_ _ _. 0)\<rparr>"

definition ex_twice_pass :: apass where
  "ex_twice_pass = ex_pass\<lparr>SrcFuncs := [5],
    Files := [\<lparr>Decls = [], Comments = [[(50, ''//mu:nolint'')]]\<rparr>]\<rparr>"

text \<open>A package in which all paths agree: \<open>fill\<close> writes \<open>n\<close> with the lock held, \<open>clear\<close> without, and \<open>use\<close> calls
  \<open>clear\<close>.\<close>

definition ex_paths_pass :: apass where
  "ex_paths_pass = ex_pass\<lparr>SrcFuncs := [4, 6, 7]\<rparr>"

definition ex_direct_pass :: apass where
  "ex_direct_pass = ex_pass\<lparr>SrcFuncs := [4, 6]\<rparr>"

definition ex_ctx :: passContext where
  "ex_ctx = newPassContext ex_pass"

definition ex_mu :: mutexFieldKey where
  "ex_mu = \<lparr>mfk_StructType = 0, mfk_FieldIndex = 0\<rparr>"

definition ex_lock :: lockRef where
  "ex_lock = \<lparr>lr_kind = fieldLock, lr_base = 0, lr_fieldIndex = 0\<rparr>"

definition ex_n :: fieldKey where
  "ex_n = \<lparr>fk_StructType = 0, fk_FieldIndex = 1\<rparr>"

definition ex_guard :: guardInfo where
  "ex_guard = \<lparr>MutexFieldIndex = 0, NeedsExclusive = True\<rparr>"

definition ex_locked_write :: observation where
  "ex_locked_write = \<lparr>SameBaseMutexFields = [\<lparr>hmf_FieldIndex = 0, hmf_Exclusive = True\<rparr>], IsRead = False,
    obsFunc = 4, obsPos = 33\<rparr>"

definition ex_bare_write :: observation where
  "ex_bare_write = \<lparr>SameBaseMutexFields = [], IsRead = False, obsFunc = 0, obsPos = 13\<rparr>"

definition ex_site :: callSiteRecord where
  "ex_site = \<lparr>Caller = 3, Callee = 0, csPos = 20, HeldByStructType = [], ReceiverValue = Some 3\<rparr>"

definition ex_state :: passContext where
  "ex_state = ex_ctx\<lparr>observations := [(ex_n, [ex_locked_write, ex_bare_write])], callSites := [ex_site]\<rparr>"

definition ex_guarded :: passContext where
  "ex_guarded = ex_state\<lparr>guards := [(ex_n, ex_guard)]\<rparr>"

lemmas ex_defs = ex_state_def ex_guarded_def ex_ctx_def ex_pass_def newPassContext_def

lemma ex_tables [simp]:
  "pass ex_ctx = ex_pass" "pass ex_state = ex_pass" "pass ex_guarded = ex_pass" "passProg ex_pass = ex_prog"
  "passPkg ex_pass = 0" "callSites ex_state = [ex_site]" "callSites ex_guarded = [ex_site]"
  "observations ex_state = [(ex_n, [ex_locked_write, ex_bare_write])]" "observations ex_guarded = observations ex_state"
  "guards ex_guarded = [(ex_n, ex_guard)]" "funcFacts ex_guarded = []" "annos ex_guarded = None"
  "concurrentFuncs ex_guarded = None"
  by (simp_all add: ex_defs)

lemma ex_funcs [simp]:
  "func_at ex_prog 0 = ex_inc" "func_at ex_prog 3 = ex_top" "func_at ex_prog 4 = ex_fill"
  "func_at ex_prog 5 = ex_twice" "func_at ex_prog 6 = ex_clear" "func_at ex_prog 7 = ex_use"
  by (simp_all add: func_at_def ex_prog_def)

lemma ex_infer: "gm_get (guards (inferGuards ex_state)) ex_n = Some ex_guard"
  by code_simp

lemma ex_not_constructor: "isConstructorLike ex_prog 0 0 = False" "isPrePublicationConstructorCall ex_prog ex_site = False"
  by code_simp+

lemma ex_no_entrypoints: "detectConcurrentEntrypoints ex_state = []"
  by code_simp

lemma ex_underlying: "Underlying ex_prog (Named 0) = Struct ex_fields" "length ex_fields = 2"
  by code_simp+

section \<open>Evaluated facts\<close>

lemma ex_annos_kept: "annos (inferPhases ex_state) = None"
  by (simp add: inferPhases_def facts_only_same [OF facts_only_propagate] facts_only_same [OF facts_only_derive])
    (simp add: inferGuards_def ex_defs)

lemma ex_entrypoints_kept:
  "detectConcurrentEntrypoints (propagateRequirements (deriveInitialRequirements (inferGuards ex_state))) =
    detectConcurrentEntrypoints ex_state"
  by (simp add: detectConcurrentEntrypoints_def facts_only_same [OF facts_only_propagate]
      facts_only_same [OF facts_only_derive]) (simp add: inferGuards_def)

lemma ex_inc_loop_free: "acyclic (cfg ex_inc)"
proof -
  have "cfg ex_inc \<subseteq> less_than"
    by (auto simp: cfg_def ex_inc_def ex_inc_blocks_def less_Suc_eq numeral_nat)
  then show ?thesis using acyclic_subset wf_acyclic wf_less_than by blast
qed

lemma ex_top_loop_free: "acyclic (cfg ex_top)"
proof -
  have "cfg ex_top = {}" by (auto simp: cfg_def ex_top_def nth_Cons' split: if_splits)
  then show ?thesis by (simp add: acyclic_def)
qed

lemma ex_call_lock:
  "call_lock ex_prog (ex_call 1 1) = Some (ex_lock, ''Lock'')"
  "call_lock ex_prog (ex_call 2 1) = Some (ex_lock, ''Unlock'')"
  by code_simp+

definition ex_held :: lockState where
  "ex_held = lock newLockState ex_lock True 31"

lemma ex_fill_state:
  "block_state ex_prog ex_fill 0 newLockState = ex_held" "block_state ex_prog ex_fill 1 ex_held = ex_held"
  "block_state ex_prog ex_fill 2 ex_held = ex_held"
  by code_simp+

lemma ex_fill_succs:
  "Succs (Blocks ex_fill ! 0) = [1]" "Succs (Blocks ex_fill ! 1) = [2, 3]" "Succs (Blocks ex_fill ! 2) = [1]"
  "Succs (Blocks ex_fill ! 3) = []" "length (Blocks ex_fill) = 4"
  by code_simp+

lemma ex_fill_agrees: "paths_agree ex_prog ex_fill"
proof -
  have inv: "b = 0 \<and> s = newLockState \<or> b \<in> {1, 2, 3} \<and> s = ex_held" if "lock_path ex_prog ex_fill b s" for b s
    using that by induction (auto simp: ex_fill_state ex_fill_succs simp del: One_nat_def)
  have "blocks_ok ex_fill"
    unfolding blocks_ok_def by (simp add: ex_fill_succs) (auto simp: ex_fill_def less_Suc_eq numeral_nat)
  moreover have "ls_eq s s'" if "lock_path ex_prog ex_fill b s" "lock_path ex_prog ex_fill b s'" for b s s'
    using inv [OF that(1)] inv [OF that(2)] by (auto simp: ls_eq_def)
  ultimately show ?thesis by (simp add: paths_agree_def)
qed

lemma ex_pass_walkable: "\<forall>fn \<in> set (SrcFuncs ex_pass). walkable (passProg ex_pass) fn"
  using ex_inc_loop_free ex_top_loop_free ex_fill_agrees by (simp add: ex_pass_def walkable_def)

text \<open>The second \<open>Lock\<close> of \<open>twice\<close> is reported by the whole pass.\<close>

lemma ex_twice_ref:
  "resolveLockRef ex_prog 1 = Some ex_lock" "isMutexReceiver ex_prog 1" "isLockMethod ''Lock''" "isLockAcquire ''Lock''"
  "isExclusiveLock ''Lock''" "fnName (func_at ex_prog 1) = ''Lock''" "lockRefName ex_prog ex_lock = ''S.mu''"
  by code_simp+

lemma ex_twice_call:
  "prog_of ctx = ex_prog \<Longrightarrow> processInstruction ctx fn (ICall p (ex_call 1 1)) ls =
    checkAndRecordLockAcquire ctx fn p ex_lock True ls"
  by (simp add: processCall_def ex_call_def ex_twice_ref [simplified] lockOrUnlock_def Let_def)

lemma ex_twice_run: "\<exists>ctx. run ex_twice_pass = Some ctx \<and> (42, DoubleLock ''S.mu'') \<in> set (diagnostics ctx)"
proof -
  define c0 where "c0 = parseAnnotations (newPassContext ex_twice_pass)"
  have c0: "prog_of c0 = ex_prog" "srcFuncs c0 = [5]"
    by (simp_all add: c0_def parseAnnotations_def newPassContext_def ex_twice_pass_def)
  obtain c1 l1 where l1: "checkAndRecordLockAcquire c0 5 41 ex_lock True newLockState = (c1, l1)" by fastforce
  obtain c2 l2 where l2: "checkAndRecordLockAcquire c1 5 42 ex_lock True l1 = (c2, l2)" by fastforce
  have "annos c1 = annos c0" "pass c1 = pass c0" "gm_get (held l1) ex_lock = Some \<lparr>hl_ref = ex_lock, hl_exclusive = True, hl_pos = 41\<rparr>"
    using l1 by (auto simp: checkAndRecordLockAcquire_def checkHeldAgain_def addEdges_def recordLockAcquisition_def
        lock_def newLockState_def Let_def split: option.splits)
  moreover have "\<not> isSuppressed c0 5 42" unfolding c0_def by code_simp
  ultimately have "(42, DoubleLock ''S.mu'') \<in> set (diagnostics c2)"
    using acquire_reports [of c1 5 42 ex_lock True l1] c0(1) l2 ex_twice_ref(7) isSuppressed_same [of c1 c0]
    by (simp add: again_diagnostic_def lock_diag_def)
  moreover have "walkFunction c0 5 = Some (checkReturnWithHeldLocks c2 5 43 l2)"
  proof -
    let ?is = "[ICall 41 (ex_call 1 1), ICall 42 (ex_call 1 1), IReturn 43]"
    have "walkFunction c0 5 = Some (fst (processBlock c0 5
        (Instrs (\<lparr>Instrs = ?is, Succs = [], Preds = []\<rparr> :: basic_block)) newLockState))"
      by (rule walkFunction_single) (simp_all add: c0 ex_twice_def)
    with l1 l2 show ?thesis by (simp add: c0 \<open>pass c1 = pass c0\<close> ex_twice_call [simplified])
  qed
  ultimately have "\<exists>c. collectPhases (newPassContext ex_twice_pass) = Some c \<and> (42, DoubleLock ''S.mu'') \<in> set (diagnostics c)"
    by (simp add: collectPhases_def collectObservations_def c0(2) flip: c0_def)
      (simp add: checkReturnWithHeldLocks_def Let_def)
  then show ?thesis
    using laterPhases_keeps by (fastforce simp: run_def analyze_def ex_twice_pass_def ex_pass_def)
qed

section \<open>Contexts for the later phases\<close>

definition ex_mu2 :: mutexFieldKey where
  "ex_mu2 = \<lparr>mfk_StructType = 1, mfk_FieldIndex = 0\<rparr>"

definition ex_edge :: "mutexFieldKey \<Rightarrow> mutexFieldKey \<Rightarrow> lockOrderEdge" where
  "ex_edge a b = \<lparr>edgeFrom = a, edgeTo = b, edgePos = 60, edgeFn = 0\<rparr>"

text \<open>Two mutexes locked in both orders.\<close>

definition ex_graph :: lockOrderGraph where
  "ex_graph = addEdge (addEdge newLockOrderGraph (ex_edge ex_mu ex_mu2)) (ex_edge ex_mu2 ex_mu)"

definition ex_facts :: funcLockFacts where
  "ex_facts = newFuncLockFacts\<lparr>Requires := [ex_mu], Acquires := [ex_mu2], AcquiresTransitive := [ex_mu2]\<rparr>"

text \<open>\<open>inc\<close> requires one mutex and acquires another; \<open>top\<close> calls it without and with a lock held.\<close>

definition ex_required :: passContext where
  "ex_required = ex_state\<lparr>funcFacts := [(0, ex_facts)]\<rparr>"

definition ex_held_site :: callSiteRecord where
  "ex_held_site = ex_site\<lparr>HeldByStructType := [(0, [\<lparr>hmr_FieldIndex = 0, hmr_Exclusive = True\<rparr>])]\<rparr>"

definition ex_nested :: passContext where
  "ex_nested = ex_required\<lparr>callSites := [ex_held_site]\<rparr>"

lemma ex_required_fields [simp]:
  "Requires ex_facts = [ex_mu]" "Acquires ex_facts = [ex_mu2]" "AcquiresTransitive ex_facts = [ex_mu2]"
  "Callee ex_site = 0" "Callee ex_held_site = 0"
  by (simp_all add: ex_facts_def ex_site_def ex_held_site_def)

lemma ex_graph_ok: "graph_ok ex_graph"
  unfolding ex_graph_def by (intro graph_ok_addEdge graph_ok_empty)

lemma ex_graph_cyclic: "\<not> acyclic (graph_rel ex_graph)"
proof -
  have "graph_rel ex_graph = {(ex_mu, ex_mu2), (ex_mu2, ex_mu)}"
    using graph_ok_empty graph_ok_addEdge [OF graph_ok_empty]
    by (simp add: ex_graph_def graph_rel_addEdge ex_edge_def) (auto simp: graph_rel_def graph_edges_def newLockOrderGraph_def)
  then have "(ex_mu, ex_mu) \<in> (graph_rel ex_graph)\<^sup>+" by (auto intro: trancl_trans)
  then show ?thesis by (auto simp: acyclic_def)
qed

lemma ex_graph_cycle: "detectCycles ex_prog (\<lambda>_ _. 0) (\<lambda>_. 0) ex_graph \<noteq> []"
  using detectCycles_iff [OF ex_graph_ok] ex_graph_cyclic by blast

definition ex_leak :: lockLeakCandidate where
  "ex_leak = \<lparr>llc_Fn = 5, llc_Pos = 43, llc_Ref = ex_lock, llc_AcquirePos = 41\<rparr>"

definition ex_leaky :: passContext where
  "ex_leaky = ex_state\<lparr>srcFuncs := [5], lockLeakCandidates := [(43, [ex_leak])]\<rparr>"

lemma ex_leak_key: "lockRefToMutexFieldKey ex_prog ex_lock = Some ex_mu"
  by code_simp

text \<open>\<open>inc\<close> returns with its mutex held, and \<open>top\<close> calls it without releasing the mutex.\<close>

definition ex_helper :: passContext where
  "ex_helper = ex_state\<lparr>funcFacts := [(0, newFuncLockFacts\<lparr>ReturnsHolding := [ex_mu]\<rparr>)]\<rparr>"

lemma ex_helper_reports:
  "callSites ex_helper = [ex_site]" "ReturnsHolding (factsOf ex_helper 0) = [ex_mu]"
  "ReturnsHolding (factsOf ex_helper 3) = []" "Releases (factsOf ex_helper 3) = []"
  "key_diag ex_helper 0 9 ex_mu d = {(9, d ''S.mu'')}" "key_diag ex_helper 3 20 ex_mu d = {(20, d ''S.mu'')}"
  "pass ex_helper = ex_pass" "fnName ex_inc = ''inc''" "fnPos ex_inc = 9" "fnName ex_top = ''top''"
  "Caller ex_site = 3" "csPos ex_site = 20"
proof -
  have name: "mutexFieldKeyName ex_prog ex_mu = ''S.mu''" by code_simp
  show "key_diag ex_helper 0 9 ex_mu d = {(9, d ''S.mu'')}" "key_diag ex_helper 3 20 ex_mu d = {(20, d ''S.mu'')}"
    using name by (auto simp: key_diag_def ex_helper_def isSuppressed_def ex_defs)
qed (simp_all add: ex_helper_def factsOf_def newFuncLockFacts_def gm_get_def ex_inc_def ex_top_def ex_site_def)

text \<open>A load of a pointer variable.\<close>

definition ex_loads :: prog where
  "ex_loads = ex_prog\<lparr>valTab := [\<lparr>vKind = OtherValue, vType = Pointer (Pointer (Named 0))\<rparr>,
    \<lparr>vKind = UnOp MUL 0, vType = Pointer (Named 0)\<rparr>]\<rparr>"

section \<open>Two packages\<close>

text \<open>A second package whose pass gets the facts of the first: it accesses a field of \<open>S\<close> and calls \<open>top\<close>.\<close>

definition ex_top_facts :: funcLockFacts where
  "ex_top_facts = newFuncLockFacts\<lparr>Requires := [ex_mu]\<rparr>"

definition ex_exporter :: passContext where
  "ex_exporter = ex_guarded\<lparr>funcFacts := [(3, ex_top_facts)]\<rparr>"

definition ex_importer :: passContext where
  "ex_importer = newPassContext (ex_pass\<lparr>passPkg := 2,
      ImportTypeFact := gm_get (exportedTypeFacts (exportFieldGuardFacts ex_exporter)),
      ImportFuncFact := gm_get (exportedFuncFacts (exportFuncLockFacts ex_exporter))\<rparr>)
    \<lparr>observations := [(ex_n, [ex_bare_write])], callSites := [ex_site\<lparr>Callee := 3\<rparr>]\<rparr>"

lemma ex_exchange_fields [simp]:
  "pass ex_exporter = ex_pass" "guards ex_exporter = [(ex_n, ex_guard)]" "exportedTypeFacts ex_exporter = []"
  "funcFacts ex_exporter = [(3, ex_top_facts)]" "prog_of ex_importer = ex_prog" "passPkg (pass ex_importer) = 2"
  "observations ex_importer = [(ex_n, [ex_bare_write])]" "callSites ex_importer = [ex_site\<lparr>Callee := 3\<rparr>]"
  by (simp_all add: ex_exporter_def ex_importer_def ex_defs)

lemma ex_exchange_facts:
  "gm_keys (guardsByType ex_exporter) = [0]" "exportedType ex_exporter 0" "obj_pkg ex_prog 0 = Some 0"
  "map_option foIdent (exportable ex_exporter 3) = Some 3" "same_mutex ex_exporter ex_importer ex_mu ex_mu"
  by code_simp+

section \<open>A package whose paths agree\<close>

lemma ex_paths_agree: "\<forall>fn \<in> set (SrcFuncs ex_paths_pass). agreeing (passProg ex_paths_pass) fn"
  using ex_fill_agrees single_block_agrees [of ex_clear _ ex_prog] single_block_agrees [of ex_use _ ex_prog]
  by (simp add: ex_paths_pass_def agreeing_def) (simp add: ex_clear_def ex_use_def)

text \<open>The whole pass, evaluated.\<close>

lemma ex_paths_result:
  "map_option (\<lambda>c. (guards c, callSites c, concurrentFuncs c, annos c, diagnostics c)) (run ex_paths_pass) =
    Some ([(ex_n, ex_guard)],
      [\<lparr>Caller = 7, Callee = 6, csPos = 81, HeldByStructType = [], ReceiverValue = Some 3\<rparr>], None,
      Some \<lparr>concurrent = [], ignored = [], nolint = []\<rparr>, [(81, MissingLockAtCallSite ''S.mu'' ''clear'' [])])"
  by code_simp

lemma ex_direct_agree: "\<forall>fn \<in> set (SrcFuncs ex_direct_pass). agreeing (passProg ex_direct_pass) fn"
  using ex_paths_agree by (simp add: ex_paths_pass_def ex_direct_pass_def)

lemma ex_direct_result: "map_option diagnostics (run ex_direct_pass) = Some [(71, Violation ''S'' ''n'' ''mu'')]"
  by code_simp

text \<open>The write in \<open>clear\<close> is the only access at its position, and no lock is held there.\<close>

lemma ex_clear_access:
  "reaches ex_prog ex_clear (IStore 71 2 0) newLockState" "field_access ex_prog (IStore 71 2 0) 71 False 0 ex_n"
proof -
  show "reaches ex_prog ex_clear (IStore 71 2 0) newLockState"
    unfolding reaches_def 
    by (rule exI [of _ 0], rule exI [of _ newLockState], rule exI [of _ "[]"]) (simp add: ex_clear_def path_start)
  have "resolveFieldAccess ex_prog 2 = Some (0, 1, 0)" "observable ex_prog (0, 1, 0)" by code_simp+
  then show "field_access ex_prog (IStore 71 2 0) 71 False 0 ex_n"
    by (simp add: field_access_def acc_key_def ex_n_def)
qed

lemma ex_clear_alone:
  assumes "fn \<in> set (SrcFuncs ex_paths_pass)" and "reaches ex_prog (func_at ex_prog fn) i s"
    and "accesses_at ex_prog i 71 False base key"
  shows "fn = 6 \<and> base_held base s = {}"
proof -
  obtain addr v where i: "i = IStore 71 addr v" using accesses_at_instr [OF assms(3)] by blast
  have fn: "fn = 6"
    using assms(1) reaches_instr [OF assms(2)] by (auto simp: i ex_paths_pass_def ex_fill_def ex_use_def)
  then obtain n s0 pre post where p: "lock_path ex_prog ex_clear n s0"
      "Instrs (Blocks ex_clear ! n) = pre @ i # post" "s = fold (instr_state ex_prog) pre s0"
    using assms(2) by (auto simp: reaches_def)
  have "n = 0 \<and> s0 = newLockState" by (rule single_block_path [OF _ _ p(1), of "Blocks ex_clear ! 0"]) (simp_all add: ex_clear_def)
  moreover from this p(2) have "pre = []" by (auto simp: i ex_clear_def Cons_eq_append_conv)
  ultimately have "s = newLockState" using p(3) by simp
  then show ?thesis using fn by (simp add: base_held_def held_keys_def newLockState_def gm_keys_def)
qed

section \<open>Two mutexes in order\<close>

text \<open>A function that locks \<open>a\<close> and then \<open>b\<close> of the struct of \<open>Walk_Diverges\<close>.\<close>

definition ord_func :: ssa_func where
  "ord_func = \<lparr>fnName = ''g'', Blocks =
      [\<lparr>Instrs = [ICall 21 (hoh_call 1 1), ICall 22 (hoh_call 1 2), IReturn 23], Succs = [], Preds = []\<rparr>],
    sigRecv = Some (Pointer (Named 0)), sigParams = [], sigResults = [], fnPos = 20, fnObject = None,
    fnPackage = Some 0, Dominates = (\<lambda>to from. to = from)\<rparr>"

definition ord_prog :: prog where
  "ord_prog = hoh_prog\<lparr>funcTab := funcTab hoh_prog @ [ord_func]\<rparr>"

definition ord_pass :: apass where
  "ord_pass = hoh_pass\<lparr>passProg := ord_prog, SrcFuncs := [3]\<rparr>"

lemma ord_func_at: "func_at ord_prog 3 = ord_func"
  by (simp add: func_at_def ord_prog_def hoh_prog_def)

lemma ord_agrees: "agreeing ord_prog 3"
  using single_block_agrees [of ord_func _ ord_prog] by (simp add: agreeing_def ord_func_at) (simp add: ord_func_def)

lemma ord_second:
  "reaches ord_prog (func_at ord_prog 3) (ICall 22 (hoh_call 1 2)) (hoh_at 0 21)"
  "acquires ord_prog (ICall 22 (hoh_call 1 2)) = Some (hoh_ref 1)"
  "(\<lparr>mfk_StructType = 0, mfk_FieldIndex = 0\<rparr>, \<lparr>mfk_StructType = 0, mfk_FieldIndex = 1\<rparr>)
    \<in> new_edges ord_prog (hoh_at 0 21) (hoh_ref 1)"
proof -
  have "instr_state ord_prog (ICall 21 (hoh_call 1 1)) newLockState = hoh_at 0 21" by code_simp
  then show "reaches ord_prog (func_at ord_prog 3) (ICall 22 (hoh_call 1 2)) (hoh_at 0 21)"
    unfolding reaches_def ord_func_at
    by (intro exI [of _ "0 :: nat"] exI [of _ newLockState] exI [of _ "[ICall 21 (hoh_call 1 1)]"] exI [of _ "[IReturn 23]"])
      (simp add: ord_func_def path_start)
  show "acquires ord_prog (ICall 22 (hoh_call 1 2)) = Some (hoh_ref 1)" by code_simp
  have "lockRefToMutexFieldKey ord_prog (hoh_ref 0) = Some \<lparr>mfk_StructType = 0, mfk_FieldIndex = 0\<rparr>"
    "lockRefToMutexFieldKey ord_prog (hoh_ref 1) = Some \<lparr>mfk_StructType = 0, mfk_FieldIndex = 1\<rparr>" "hoh_ref 0 \<noteq> hoh_ref 1"
    by code_simp+
  then show "(\<lparr>mfk_StructType = 0, mfk_FieldIndex = 0\<rparr>, \<lparr>mfk_StructType = 0, mfk_FieldIndex = 1\<rparr>)
      \<in> new_edges ord_prog (hoh_at 0 21) (hoh_ref 1)"
    by (auto simp: new_edges_def hoh_at_def held_keys_lock simp del: One_nat_def)
qed

end
