(* ===== verification/Spec2Isabelle.thy ===== *)
theory Spec2Isabelle
  imports Example
begin

text \<open>
  golintmu is a static analyzer for Go, built on \<open>golang.org/x/tools/go/analysis\<close>: it finds the mutex that
  guards each field of a struct from the accesses it sees, and reports accesses without the guard and other
  misuse of locks. This library models the whole of \<open>src/pkg/analyzer\<close> and proves what its phases compute.

  \<^bold>\<open>The program.\<close> One pass over a package (\<open>run\<close> in \<open>golintmu.go\<close>) makes a pass context and runs the phases
  on it in a fixed order: the comment directives are parsed (\<open>annotations.go\<close>); the SSA form of every function
  is walked along its control flow with the set of held locks (\<open>ssawalk.go\<close> on the states of \<open>lockstate.go\<close>,
  values resolved to locks and fields by \<open>resolver.go\<close>), which collects accesses, calls, lock-order edges
  and candidates for leaks and bad unlocks; facts about imported packages are added (\<open>facts.go\<close>); guards are
  inferred (\<open>inference.go\<close>); what each function requires and acquires is derived and propagated over the
  calls (\<open>interprocedural.go\<close>); the functions that may run concurrently are found (\<open>concurrency.go\<close>); cycles of
  the lock order are searched (\<open>lockorder.go\<close>); the reports are made (\<open>reporter.go\<close>); facts are exported
  for the packages that import this one. The phases share nothing but the context.

  \<^bold>\<open>Where it is modelled.\<close>
  \<^item> \<open>Go_Prelude\<close>, \<open>Go_Strings\<close>: what the code uses of Go: maps as association lists with one entry per key
    (locale \<open>go_map\<close>, interpreted on \<open>gm_get\<close>, \<open>gm_put\<close>, \<open>gm_del\<close>), sets as lists without duplicates, \<open>range\<close> over a
    map as \<open>shuffle\<close> by a choice function, the functions of \<open>strings\<close>, \<open>fmt\<close> and \<open>path/filepath\<close>.
  \<^item> \<open>Go_Program\<close>: the analysed package as tables (types, packages, SSA values, functions) with the queries
    of \<open>go/types\<close> and \<open>go/ssa\<close> that golintmu makes. A pointer to such an object is its index in the table.
  \<^item> \<open>Lock_State\<close> (\<open>lockstate.go\<close>), \<open>Resolver\<close> (\<open>resolver.go\<close>), \<open>Annotations\<close> (\<open>annotations.go\<close>), \<open>Inference\<close>
    (\<open>inference.go\<close>), \<open>Interprocedural\<close> with the bounded loops of \<open>Fixpoint\<close> (\<open>interprocedural.go\<close>),
    \<open>Concurrency\<close> (\<open>concurrency.go\<close>), \<open>Lock_Order\<close> (\<open>lockorder.go\<close>), \<open>Facts\<close> (\<open>facts.go\<close>), \<open>Walk_Reports\<close> and
    \<open>Reporter\<close> (\<open>reporter.go\<close>, the reports made during the walk and those made after it), \<open>Ssa_Walk\<close>
    (\<open>ssawalk.go\<close>), \<open>Pass_Context\<close> and \<open>Golintmu\<close> (\<open>golintmu.go\<close>: its records, and \<open>run\<close> with all phases).
    Each Go function is a definition of the same name; the body of a loop, or a branch that Go writes inline,
    may be a definition of its own.
  \<^item> \<open>Example\<close>: a small package on which the theorems are applied.

  The context is the record \<open>passContext\<close>; an operation of the code that changes it returns it changed.
  \<open>pass.Reportf\<close> appends a value of the type \<open>diagnostic\<close>, one constructor per kind of report, from which
  \<open>message\<close> makes the text; exported facts are kept in the context. In the walk the recursion of
  \<open>walkBlock\<close> is a stack of calls still to be made, and the object that \<open>walkBlock\<close> stores and then changes
  is stored as it is after the block (\<open>storeEntry\<close>).

  \<^bold>\<open>What the lemmas show.\<close>
  \<^item> The walk: \<open>Walk_Sound\<close> compares it with the paths of the control-flow graph (locale \<open>must_flow\<close>, a forward
    analysis over states with an equivalence, interpreted on the lock states) and proves it terminating for
    functions without loops and for functions whose paths agree; \<open>Walk_Trace\<close> flattens it, on the latter, into one
    run of the handlers over every reachable block; \<open>Walk_Diverges\<close> has a function on which it
    does not return; \<open>Walk_Invariant\<close> lifts what every instruction keeps to the whole walk (locale \<open>walk_inv\<close>),
    which \<open>Pass_Invariant\<close> (well-formed contexts), \<open>Nolint\<close> (suppression), \<open>End_To_End\<close>, \<open>Walk_Collects\<close> and
    \<open>Reports_Real\<close> interpret; \<open>Walk_Spec\<close> and \<open>Walk_Effects\<close> say what single instructions record and report;
    \<open>Walk_Collects\<close> says what the walk over a package collects, by the paths of its functions alone.
  \<^item> The later phases: guard inference against counting (\<open>Inference\<close>), requirements and acquisitions as
    reflexive transitive closures (locale \<open>closure_loop\<close>, interpreted on both loops of \<open>Interprocedural\<close>),
    concurrency as reachability (\<open>Concurrency\<close>), cycle detection against \<open>acyclic\<close> (\<open>Lock_Order\<close>).
  \<^item> The reports: locale \<open>reporting\<close> states that a check only adds diagnostics, and which; it is
    interpreted on every check of \<open>Reporter\<close> and \<open>Acquire_Helpers\<close>, and gives the exact set of diagnostics of each phase.
  \<^item> Composition: \<open>End_To_End\<close> follows an observed access to its report through all phases, \<open>Reports_Real\<close>
    relates the reports of the whole pass to the paths of the program in both directions, and
    \<open>Fact_Exchange\<close> follows the facts from one package to the next.

  A function whose paths agree (\<open>paths_agree\<close>) enters each block with the same locks held and the same unlocks
  deferred, whichever way control takes; that is what the analyzer asks of the code it reads, and it reports
  branches that disagree. Of functions whose paths do not agree the development shows what the analyzer does:
  it reports them (\<open>inconsistent_branches_reported\<close>), ends if they have no loops (\<open>pass_returns\<close>), and need
  not end otherwise (\<open>pass_diverges\<close>).

  \<^bold>\<open>Bounds.\<close> The two loops of \<open>propagateRequirements\<close> stop after \<open>maxIterations\<close> = 1000 rounds, as in the code;
  they reach the closure when at most that many functions make calls, and without that they are sound. An
  explanation follows at most \<open>maxDepth\<close> = 5 origins, and the type of a base is looked through at most 4
  pointers, both as in the code. The walk is a \<open>partial_function\<close> on options: \<open>None\<close> means that the recursion of
  the code does not end. Every other definition is total; the recursions over values and graphs end because
  their visited sets grow. The order in which Go iterates a map is a parameter of the pass (\<open>rangeOrder\<close>), and
  the theorems hold for all orders. No theorem depends on the width of Go's \<open>int\<close>: the integers are indices
  of fields and blocks, positions and counts of them, and are not multiplied or negated; the one negative
  value, the index -1 for no mutex, is kept.

  \<^bold>\<open>Not modelled.\<close> \<open>cmd/golintmu/main.go\<close> only calls \<open>singlechecker.Main\<close>. The value \<open>Analyzer\<close> and the
  registration of the flag \<open>-verbose\<close> are data for the framework; the flag is a field of the pass. The
  \<open>AFact\<close> methods are empty markers. The framework itself (\<open>go/ssa\<close>, \<open>go/types\<close>, \<open>go/ast\<close>, the fact store and
  its encoding) is code outside this repository: its results are the tables of \<open>Go_Program\<close> and the fields
  of \<open>apass\<close>, about which the theorems assume only what their statements say.
\<close>

section \<open>The whole pass\<close>

text \<open>C1. No access without its guard is lost. Let the paths of every function agree on the locks held at each
  block. Suppose some path of a function makes an access to a guarded field without holding the guard of that
  struct value (and the function is no constructor, and what else accesses the field at that position does so in
  the same function without the guard). Suppose further that going up from that function through calls whose
  caller does not hold the guard (and which are no initialisation before publication) leads to a function \<open>r\<close>
  that nobody calls, that is concurrent and not annotated away. Then the pass reports the access itself, if \<open>r\<close>
  makes it, or one of the calls that \<open>r\<close> makes. The bound of the fixpoint loops (1000 rounds) is enough
  whenever there are at most 1000 functions.\<close>

theorem access_without_guard_reported:
  assumes "\<forall>fn \<in> set (SrcFuncs p). agreeing (passProg p) fn" and "card (set (SrcFuncs p)) \<le> maxIterations"
    and "run p = Some ctx" and "hasSSA p"
    and "fn \<in> set (SrcFuncs p)" and "reaches (passProg p) (func_at (passProg p) fn) i s"
    and "field_access (passProg p) i q isRead base key"
    and "gm_get (guards ctx) key = Some guard" and "\<not> isConstructorLike (passProg p) fn (fk_StructType key)"
    and "\<forall>fn' \<in> set (SrcFuncs p). \<forall>i' s' base'. reaches (passProg p) (func_at (passProg p) fn') i' s' \<longrightarrow>
      accesses_at (passProg p) i' q isRead base' key \<longrightarrow> fn' = fn \<and> MutexFieldIndex guard \<notin> base_held base' s'"
    and "\<forall>fs. Underlying (passProg p) (Named (fk_StructType key)) = Struct fs \<longrightarrow> MutexFieldIndex guard < length fs"
    and "(fn, r) \<in> (req_rel ctx (guard_key key guard))\<^sup>*" and "\<not> hasCallers ctx r" and "isConcurrent ctx r"
    and "\<forall>q'. \<not> isSuppressed ctx r q'"
  shows "(\<exists>sn fl mn. r = fn \<and> (q, Violation sn fl mn) \<in> set (diagnostics ctx)) \<or>
    (\<exists>cs \<in> set (callSites ctx). Caller cs = r \<and> (\<exists>n g reasons.
      (csPos cs, MissingLockAtCallSite n g reasons) \<in> set (diagnostics ctx)))"
  by (rule path_access_reported [OF assms])

theorem access_without_guard_reported_witness:
  "\<exists>ctx n g reasons. run ex_paths_pass = Some ctx \<and> (81, MissingLockAtCallSite n g reasons) \<in> set (diagnostics ctx)"
proof -
  obtain ctx where run: "run ex_paths_pass = Some ctx" and ctx: "guards ctx = [(ex_n, ex_guard)]"
      "callSites ctx = [\<lparr>Caller = 7, Callee = 6, csPos = 81, HeldByStructType = [], ReceiverValue = Some 3\<rparr>]"
      "concurrentFuncs ctx = None" "annos ctx = Some \<lparr>concurrent = [], ignored = [], nolint = []\<rparr>"
    using ex_paths_result by (auto simp: map_option_case split: option.splits)
  have pass: "pass ctx = ex_paths_pass" by (rule run_pass [OF run])
  have p: "passProg ex_paths_pass = ex_prog" "hasSSA ex_paths_pass" "SrcFuncs ex_paths_pass = [4, 6, 7]"
    by (simp_all add: ex_paths_pass_def) (simp add: ex_pass_def)
  have clear: "fn = 6 \<and> base_held base s = {}" if "fn \<in> set (SrcFuncs ex_paths_pass)"
      "reaches ex_prog (func_at ex_prog fn) i s" "accesses_at ex_prog i 71 False base ex_n" for fn i s base
    using ex_clear_alone [OF that] .
  have con: "isConstructorLike ex_prog 6 0 = False"
    "isPrePublicationConstructorCall ex_prog
      \<lparr>Caller = 7, Callee = 6, csPos = 81, HeldByStructType = [], ReceiverValue = Some 3\<rparr> = False" by code_simp+
  have up: "(6, 7) \<in> req_rel ctx (guard_key ex_n ex_guard)"
    using con(2) by (auto simp: req_rel_def ctx pass p callerHoldsMutex_def)
  have "(\<exists>sn fl mn. (7::nat) = 6 \<and> (71, Violation sn fl mn) \<in> set (diagnostics ctx)) \<or>
      (\<exists>cs \<in> set (callSites ctx). Caller cs = 7 \<and> (\<exists>n g reasons.
        (csPos cs, MissingLockAtCallSite n g reasons) \<in> set (diagnostics ctx)))"
  proof (rule access_without_guard_reported [OF ex_paths_agree _ run, where fn = 6 and key = ex_n and guard = ex_guard])
    show "reaches (passProg ex_paths_pass) (func_at (passProg ex_paths_pass) 6) (IStore 71 2 0) newLockState"
      "field_access (passProg ex_paths_pass) (IStore 71 2 0) 71 False 0 ex_n"
      using ex_clear_access by (simp_all add: p)
    show "\<forall>fn' \<in> set (SrcFuncs ex_paths_pass). \<forall>i' s' base'.
        reaches (passProg ex_paths_pass) (func_at (passProg ex_paths_pass) fn') i' s' \<longrightarrow>
        accesses_at (passProg ex_paths_pass) i' 71 False base' ex_n \<longrightarrow>
        fn' = 6 \<and> MutexFieldIndex ex_guard \<notin> base_held base' s'"
      unfolding p(1) using clear by blast
    show "(6, 7) \<in> (req_rel ctx (guard_key ex_n ex_guard))\<^sup>*" using up by blast
  qed (use con(1) ex_underlying in \<open>simp_all add: p ctx gm_get_def ex_n_def ex_guard_def maxIterations_def hasCallers_def
      isConcurrent_def isSuppressed_def\<close>)
  with run show ?thesis by (auto simp: ctx)
qed

text \<open>C2. A reported violation is real: if the paths agree, there is a function of the package with a path to an
  access at the reported position that does not hold the guard of that struct value. The function is concurrent and no
  constructor, and the diagnostic names the struct, the field and the guard.\<close>

theorem violations_are_real:
  assumes "\<forall>fn \<in> set (SrcFuncs p). agreeing (passProg p) fn" and "run p = Some ctx"
    and "(q, Violation sn fl mn) \<in> set (diagnostics ctx)"
  shows "\<exists>fn key guard fs. unguarded_access p ctx fn q key guard \<and> isConcurrent ctx fn \<and>
    Underlying (passProg p) (Named (fk_StructType key)) = Struct fs \<and>
    sn = objName (named_at (passProg p) (fk_StructType key)) \<and> fl = fieldName (fs ! fk_FieldIndex key) \<and>
    mn = fieldName (fs ! MutexFieldIndex guard)"
  by (rule violation_real [OF assms])

theorem violations_are_real_witness:
  "\<exists>ctx fn key guard. run ex_direct_pass = Some ctx \<and> unguarded_access ex_direct_pass ctx fn 71 key guard"
proof -
  obtain ctx where run: "run ex_direct_pass = Some ctx" and d: "(71, Violation ''S'' ''n'' ''mu'') \<in> set (diagnostics ctx)"
    using ex_direct_result by (auto simp: map_option_case split: option.splits)
  from violations_are_real [OF ex_direct_agree run d] run show ?thesis by blast
qed



text \<open>C4. The pass returns on every package in which each function has no body, or no loop, or reaches each of
  its blocks with the same locks held on all paths: the walk, which recurses along the control flow, ends
  on each of them, and every later phase is total.\<close>

theorem pass_returns:
  assumes "\<forall>fn \<in> set (SrcFuncs p). walkable (passProg p) fn"
  shows "\<exists>ctx. run p = Some ctx"
  by (rule run_returns [OF assms])

theorem pass_returns_witness: "\<exists>ctx. run ex_pass = Some ctx"
  by (rule pass_returns [OF ex_pass_walkable])

text \<open>C5. The pass does not return on the package of \<open>Walk_Diverges\<close>: a function that locks \<open>x\<close> on one branch
  and then swaps the locks \<open>b\<close> and \<open>a\<close> in a loop. The merged state that \<open>walkBlock\<close> stores on a later
  visit is the object that the instructions of the block change afterwards, so the stored states of the two
  halves of the loop never settle.\<close>

theorem pass_diverges: "run hoh_pass = None"
proof -
  have "prog_of (parseAnnotations (newPassContext hoh_pass)) = hoh_prog"
    "srcFuncs (parseAnnotations (newPassContext hoh_pass)) = [0]" "hasSSA hoh_pass"
    by (simp_all add: parseAnnotations_def newPassContext_def hoh_pass_def)
  then show ?thesis
    using hoh_walk by (simp add: run_def analyze_def collectPhases_def collectObservations_def)
qed

text \<open>C6. The pass keeps its context well-formed: at the end the maps have one entry per key, an observation is
  recorded once per field, position and kind of access and only for fields of structs that are no mutexes,
  the sets of the function facts have no duplicates, the leak candidates are stored under their return, and
  the lock-order graph stores each edge once and under its source.\<close>

theorem pass_keeps_context_ok:
  assumes "run p = Some ctx"
  shows "obs_ok ctx \<and> gm_ok (guards ctx) \<and> facts_ok ctx \<and> leaks_ok ctx \<and> graph_ok (orderGraph ctx)"
  using ok_run [OF assms] by (simp add: ctx_ok_def)

theorem pass_keeps_context_ok_witness:
  "\<exists>ctx. run ex_pass = Some ctx \<and> obs_ok ctx \<and> gm_ok (guards ctx) \<and> facts_ok ctx \<and> leaks_ok ctx \<and>
    graph_ok (orderGraph ctx)"
  using pass_keeps_context_ok run_returns [OF ex_pass_walkable] by blast

text \<open>C7. A \<open>//mu:nolint\<close> comment is respected by the whole pass: no diagnostic other than that of an exported
  guarded field is on the line after one.\<close>

theorem nolint_respected:
  assumes "run p = Some ctx" and "(q, d) \<in> set (diagnostics ctx)" and "\<not> exported_field d" and "IsValid q"
  shows "\<not> suppresses_line (newPassContext p) (Filename (Fset p q)) (Line (Fset p q))"
  by (rule quiet_run [OF assms])

theorem nolint_respected_witness:
  "\<not> suppresses_line (newPassContext ex_twice_pass) (Filename (Fset ex_twice_pass 42)) (Line (Fset ex_twice_pass 42))"
proof -
  obtain ctx where "run ex_twice_pass = Some ctx" "(42, DoubleLock ''S.mu'') \<in> set (diagnostics ctx)"
    using ex_twice_run by blast
  then show ?thesis by (rule nolint_respected) (simp_all add: IsValid_def NoPos_def)
qed

section \<open>The walk over a function\<close>

text \<open>C8. On a function whose paths agree (each block is entered with the same locks and the same deferred unlocks
  on all paths) the walk returns, reports no inconsistent branches, and does to the pass context exactly what
  processing every block that some path reaches does, once each, in the state with which the paths enter it.\<close>

theorem walk_follows_paths:
  assumes "paths_agree (prog_of ctx) f"
  shows "\<exists>w vs. walkBlock f ctx (newWalkContext fn) 0 None newLockState = Some (fold (visit_block f fn) vs ctx, w) \<and>
    inconsistentLockReported w = [] \<and> distinct (map fst vs) \<and>
    (\<forall>b s. lock_path (prog_of ctx) f b s \<longrightarrow> (\<exists>st. (b, st) \<in> set vs \<and> ls_eq st s)) \<and>
    (\<forall>b st. (b, st) \<in> set vs \<longrightarrow> gm_get (entryStates w) b = Some st \<and> (\<exists>s. lock_path (prog_of ctx) f b s \<and> ls_eq st s))"
  by (rule walk_visits [OF assms, of fn], unfold on_path_def, blast)

theorem walk_follows_paths_witness:
  "\<exists>w vs st. walkBlock ex_fill ex_ctx (newWalkContext 4) 0 None newLockState =
    Some (fold (visit_block ex_fill 4) vs ex_ctx, w) \<and> (1, st) \<in> set vs \<and> ls_eq st ex_held"
proof -
  have "lock_path ex_prog ex_fill 1 (block_state ex_prog ex_fill 0 newLockState)"
    by (rule path_step [OF path_start]) (simp add: ex_fill_succs)
  then have "lock_path (prog_of ex_ctx) ex_fill 1 ex_held" by (simp add: ex_fill_state)
  moreover have "paths_agree (prog_of ex_ctx) ex_fill" using ex_fill_agrees by simp
  ultimately show ?thesis using walk_follows_paths [of ex_ctx ex_fill 4] by blast
qed

text \<open>C9. What is observed of a package whose paths agree: every recorded access is made by some path of its function,
  with exactly those mutexes of the accessed struct value held that were recorded; and every field that some
  path reads or writes is recorded at that position.\<close>

theorem observations_follow_paths:
  assumes "\<forall>fn \<in> set (srcFuncs ctx). agreeing (prog_of ctx) fn" and "collectObservations ctx = Some c"
    and "observations ctx = []" and "observedAt ctx = []"
  shows "(\<forall>key. \<forall>ob \<in> set (gm_slice (observations c) key). obsFunc ob \<in> set (srcFuncs ctx) \<and>
      (\<exists>i s base. reaches (prog_of ctx) (func_at (prog_of ctx) (obsFunc ob)) i s \<and>
        accesses_at (prog_of ctx) i (obsPos ob) (IsRead ob) base key \<and>
        hmf_FieldIndex ` set (SameBaseMutexFields ob) = base_held base s)) \<and>
    (\<forall>fn \<in> set (srcFuncs ctx). \<forall>i s p isRead base key. reaches (prog_of ctx) (func_at (prog_of ctx) fn) i s \<longrightarrow>
      field_access (prog_of ctx) i p isRead base key \<longrightarrow>
      (\<exists>ob \<in> set (gm_slice (observations c) key). obsPos ob = p \<and> IsRead ob = isRead))"
  by (rule conjI, intro allI ballI, erule collected_observations(1) [OF assms], intro ballI allI impI,
      erule (2) collected_observations(2) [OF assms])

theorem observations_follow_paths_witness:
  "\<exists>c. collectObservations (parseAnnotations (newPassContext ex_paths_pass)) = Some c \<and>
    (\<exists>ob \<in> set (gm_slice (observations c) ex_n). obsPos ob = 71 \<and> \<not> IsRead ob)"
proof -
  let ?ctx = "parseAnnotations (newPassContext ex_paths_pass)"
  have P: "prog_of ?ctx = ex_prog" "srcFuncs ?ctx = [4, 6, 7]" by (simp_all only: fresh_context) (simp_all add: ex_paths_pass_def)
  have agree: "\<forall>fn \<in> set (srcFuncs ?ctx). agreeing (prog_of ?ctx) fn" using ex_paths_agree unfolding fresh_context .
  then obtain c where c: "collectObservations ?ctx = Some c" using collect_trace by metis
  have "reaches (prog_of ?ctx) (func_at (prog_of ?ctx) 6) (IStore 71 2 0) newLockState"
    "field_access (prog_of ?ctx) (IStore 71 2 0) 71 False 0 ex_n" "6 \<in> set (srcFuncs ?ctx)"
    using ex_clear_access unfolding P by simp_all
  with observations_follow_paths [OF agree c fresh_context(3, 4), THEN conjunct2]
  have "\<exists>ob \<in> set (gm_slice (observations c) ex_n). obsPos ob = 71 \<and> IsRead ob = False" by blast
  with c show ?thesis by blast
qed





text \<open>C12. Locking a mutex that the function already holds on this path is reported, by the mode it is held in: a
  double lock when it is held exclusively, an upgrade or a recursive read lock otherwise; otherwise nothing
  is reported. The report is missing only where it is suppressed or the mutex has no name.\<close>

theorem locking_again_reported:
  "set (diagnostics (fst (checkAndRecordLockAcquire ctx fn p ref e ls))) = set (diagnostics ctx) \<union>
    (case gm_get (held ls) ref of None \<Rightarrow> {}
     | Some h \<Rightarrow> lock_diag ctx fn p ref (again_diagnostic e (hl_exclusive h)))"
  by (rule acquire_reports)

text \<open>C13. The lock order of such a package: the recorded edges are exactly the pairs of a mutex that some path holds
  and another that it acquires there, for mutexes that are fields of named structs; and the recorded unlocks of
  unlocked mutexes are exactly those that some path makes without holding the mutex.\<close>

theorem locking_follows_paths:
  assumes "\<forall>fn \<in> set (srcFuncs ctx). agreeing (prog_of ctx) fn" and "collectObservations ctx = Some c"
    and "orderGraph ctx = newLockOrderGraph" and "unlockOfUnlockedCandidates ctx = []"
  shows "graph_rel (orderGraph c) = {(h, a). \<exists>fn \<in> set (srcFuncs ctx). \<exists>i s r.
      reaches (prog_of ctx) (func_at (prog_of ctx) fn) i s \<and> acquires (prog_of ctx) i = Some r \<and>
      (h, a) \<in> new_edges (prog_of ctx) s r} \<and>
    set (unlockOfUnlockedCandidates c) = {\<lparr>uuc_Fn = fn, uuc_Pos = p, uuc_Ref = r\<rparr> |fn p r.
      fn \<in> set (srcFuncs ctx) \<and> (\<exists>i s. reaches (prog_of ctx) (func_at (prog_of ctx) fn) i s \<and>
        releases (prog_of ctx) i = Some (p, r) \<and> r \<notin> held_keys s)}"
  using collected_order [OF assms(1-3)] collected_unlocks [OF assms(1, 2, 4)] by blast

theorem locking_follows_paths_witness:
  "\<exists>c. collectObservations (parseAnnotations (newPassContext ord_pass)) = Some c \<and>
    (\<lparr>mfk_StructType = 0, mfk_FieldIndex = 0\<rparr>, \<lparr>mfk_StructType = 0, mfk_FieldIndex = 1\<rparr>) \<in> graph_rel (orderGraph c)"
proof -
  let ?ctx = "parseAnnotations (newPassContext ord_pass)"
  have P: "prog_of ?ctx = ord_prog" "srcFuncs ?ctx = [3]" by (simp_all only: fresh_context) (simp_all add: ord_pass_def)
  have fresh: "orderGraph ?ctx = newLockOrderGraph" "unlockOfUnlockedCandidates ?ctx = []"
    by (simp_all add: parseAnnotations_def newPassContext_def newLockOrderGraph_def)
  have agree: "\<forall>fn \<in> set (srcFuncs ?ctx). agreeing (prog_of ?ctx) fn" unfolding P using ord_agrees by simp
  then obtain c where c: "collectObservations ?ctx = Some c" using collect_trace by metis
  have "\<exists>fn \<in> set (srcFuncs ?ctx). \<exists>i s r. reaches (prog_of ?ctx) (func_at (prog_of ?ctx) fn) i s \<and>
      acquires (prog_of ?ctx) i = Some r \<and>
      (\<lparr>mfk_StructType = 0, mfk_FieldIndex = 0\<rparr>, \<lparr>mfk_StructType = 0, mfk_FieldIndex = 1\<rparr>) \<in> new_edges (prog_of ?ctx) s r"
    unfolding P by (rule bexI [of _ 3], intro exI conjI, rule ord_second(1), rule ord_second(2), rule ord_second(3)) simp
  with locking_follows_paths [OF agree c fresh, THEN conjunct1]
  have "(\<lparr>mfk_StructType = 0, mfk_FieldIndex = 0\<rparr>, \<lparr>mfk_StructType = 0, mfk_FieldIndex = 1\<rparr>) \<in> graph_rel (orderGraph c)"
    by simp
  with c show ?thesis by blast
qed


text \<open>C15. At a return the candidates stored under its position are replaced by exactly the locks held there
  without a deferred unlock; the candidates of other returns stay.\<close>

theorem return_records_leaks:
  "set (gm_slice (lockLeakCandidates (checkReturnWithHeldLocks ctx fn p ls)) q) =
    (if q = p then {\<lparr>llc_Fn = fn, llc_Pos = p, llc_Ref = ref, llc_AcquirePos = hl_pos hl\<rparr> |ref hl.
        gm_get (held ls) ref = Some hl \<and> ref \<notin> set (deferredUnlocks ls)}
     else set (gm_slice (lockLeakCandidates ctx) q))"
  by (rule return_candidates)

text \<open>C16. An access is recorded once: processing it again, with any locks held, changes nothing. In particular a
  second walk over a block does not correct the locks recorded by the first.\<close>

theorem access_recorded_once:
  "processAccess (processAccess ctx fn addr isRead p ls) fn' addr isRead p ls' = processAccess ctx fn addr isRead p ls"
  by (rule processAccess_once)

section \<open>Lock ordering\<close>

text \<open>C17. Cycle detection is exact: on a well-formed lock-order graph a cycle is found if and only if there is one,
  whatever order Go iterates its maps in. Every cycle that is found is one: a non-empty sequence of recorded edges,
  each starting where the one before it ends, back to the start.\<close>

theorem cycles_found_iff_cyclic:
  assumes "graph_ok g"
  shows "(detectCycles P ce c g = [] \<longleftrightarrow> acyclic (graph_rel g)) \<and>
    (\<forall>cy \<in> set (detectCycles P ce c g).
      cy \<noteq> [] \<and> set cy \<subseteq> graph_edges g \<and> walk_from (edgeFrom (hd cy)) cy (edgeFrom (hd cy)))"
  using detectCycles_iff [OF assms] detectCycles_sound [OF assms] by (simp add: is_cycle_def)

theorem cycles_found_iff_cyclic_witness: "detectCycles ex_prog (\<lambda>_ _. 0) (\<lambda>_. 0) ex_graph \<noteq> []"
  using cycles_found_iff_cyclic [OF ex_graph_ok] ex_graph_cyclic by blast

text \<open>C18. The edges between functions: a call adds exactly the edges from each mutex held at the call to each other
  mutex that the callee acquires, itself or through its own calls.\<close>

theorem calls_order_locks:
  assumes "graph_ok (orderGraph ctx)"
  shows "graph_rel (orderGraph (collectInterproceduralLockOrderEdges ctx)) = graph_rel (orderGraph ctx) \<union>
      {(h, a). \<exists>cs \<in> set (callSites ctx). held_at cs h \<and> Callee cs \<in> acquirers ctx a \<and> h \<noteq> a}"
  by (rule collect_edges(2) [OF assms])

theorem calls_order_locks_witness:
  "(ex_mu, ex_mu2) \<in> graph_rel (orderGraph (collectInterproceduralLockOrderEdges ex_nested))"
proof -
  have ok: "graph_ok (orderGraph ex_nested)"
    using graph_ok_empty by (simp add: ex_nested_def ex_required_def ex_defs newLockOrderGraph_def)
  have "held_at ex_held_site ex_mu" "Callee ex_held_site \<in> acquirers ex_nested ex_mu2" "ex_mu \<noteq> ex_mu2"
    by (simp_all add: held_at_def ex_held_site_def ex_mu_def ex_mu2_def acquirers_def factsOf_def ex_nested_def
        ex_required_def gm_slice_def gm_get_def)
  then show ?thesis using calls_order_locks [OF ok] by (auto simp: ex_nested_def)
qed

text \<open>C19. What is reported about lock ordering: for every found cycle with an edge in a concurrent function, one
  diagnostic at its first edge unless that is suppressed or no mutex of the cycle has a name; nothing else
  changes.\<close>

theorem cycle_reports_exact:
  "only_reports ctx (detectAndReportLockOrderCycles ctx) \<and>
   set (diagnostics (detectAndReportLockOrderCycles ctx)) =
    set (diagnostics ctx) \<union> (\<Union>cycle \<in> set (found_cycles ctx). cycle_reports ctx cycle)"
  using detectAndReportLockOrderCycles_reports by blast

section \<open>Requirements and acquisitions of functions\<close>

text \<open>C20. The functions that require a mutex after propagation are exactly those from which one that requires it
  before is reached through calls whose caller does not hold the mutex and which are no initialisation
  before publication, if there are at most as many calling functions as the loop has rounds. However many
  functions there are, propagation never invents a requirement.\<close>

theorem requirements_are_the_closure:
  "requirers (propagateRequirements ctx) m \<subseteq> (req_rel ctx m)\<^sup>* `` requirers ctx m \<and>
   (card (Caller ` set (callSites ctx)) \<le> maxIterations \<longrightarrow>
     requirers (propagateRequirements ctx) m = (req_rel ctx m)\<^sup>* `` requirers ctx m)"
  using propagate_requires_sound propagate_requires by blast

theorem requirements_are_the_closure_witness:
  "3 \<in> requirers (propagateRequirements ex_required) ex_mu"
proof -
  have few: "card (Caller ` set (callSites ex_required)) \<le> maxIterations"
    by (simp add: ex_required_def maxIterations_def)
  have "0 \<in> requirers ex_required ex_mu"
    by (simp add: requirers_def factsOf_def ex_required_def gm_get_def)
  moreover have "(0, 3) \<in> req_rel ex_required ex_mu"
    using ex_not_constructor(2) by (auto simp: req_rel_def ex_required_def callerHoldsMutex_def ex_site_def)
  ultimately show ?thesis using requirements_are_the_closure [of ex_required ex_mu] few by blast
qed



text \<open>C22. The first requirements of a function come from its own accesses: it requires the guard of a field that it
  accesses without it, unless it is a constructor of the struct.\<close>

theorem initial_requirements_exact:
  "fn \<in> requirers (deriveInitialRequirements ctx) mfk \<longleftrightarrow> fn \<in> requirers ctx mfk \<or>
    (\<exists>key guard obs. gm_get (guards ctx) key = Some guard \<and>
      obs \<in> set (gm_slice (observations ctx) key) \<and> obsFunc obs = fn \<and>
      needs_guard (prog_of ctx) key guard obs \<and> mfk = guard_key key guard)"
  by (rule deriveInitialRequirements_spec)

section \<open>Guards\<close>





section \<open>Concurrency\<close>

text \<open>C25. A function counts as concurrent exactly when it is an entry point or is reached from one through the
  recorded calls; without any entry point every function does.\<close>

theorem concurrent_iff_reachable:
  "isConcurrent (computeConcurrentContext ctx) fn \<longleftrightarrow>
    detectConcurrentEntrypoints ctx = [] \<or> fn \<in> (calls ctx)\<^sup>* `` set (detectConcurrentEntrypoints ctx)"
  by (rule isConcurrent_spec)


section \<open>Reports\<close>


text \<open>C28. What the check of calls reports is exactly: for every call in a concurrent function, the mutexes that the
  callee requires and the caller neither holds nor passes on to its own callers (and which the call does not
  precede publication), and the mutexes that the callee acquires while the caller holds them.\<close>

theorem call_reports_exact:
  "only_reports ctx (checkInterproceduralViolations ctx) \<and>
   set (diagnostics (checkInterproceduralViolations ctx)) =
    set (diagnostics ctx) \<union> (\<Union>cs \<in> set (callSites ctx). site_reports ctx cs)"
  using checkInterproceduralViolations_reports by blast

text \<open>C29. The candidates of the walk that are reported: the leaks are exactly the recorded ones whose function does not
  require the lock, has no deferred lock reported for it, and is no helper that returns with the lock on purpose; the
  unlocks of unlocked mutexes are exactly the recorded ones whose function neither requires the mutex nor calls a
  function that returns with it held.\<close>

theorem candidate_reports_exact:
  "only_reports ctx (reportDeferredLockLeaks ctx) \<and>
   set (diagnostics (reportDeferredLockLeaks ctx)) =
    set (diagnostics ctx) \<union> (\<Union>c \<in> leak_candidates ctx. leaks ctx c) \<and>
   only_reports ctx (reportDeferredUnlockOfUnlocked ctx) \<and>
   set (diagnostics (reportDeferredUnlockOfUnlocked ctx)) =
    set (diagnostics ctx) \<union> (\<Union>c \<in> set (unlockOfUnlockedCandidates ctx). bad_unlocks ctx c)"
  by (intro conjI reportDeferredLockLeaks_reports reportDeferredUnlockOfUnlocked_reports)

text \<open>C30. Exported guarded fields: exactly the fields of structs of the package that have a guard and are exported
  are reported.\<close>

theorem exported_field_reports_exact:
  "only_reports ctx (checkExportedGuardedFields ctx) \<and>
   set (diagnostics (checkExportedGuardedFields ctx)) = set (diagnostics ctx) \<union>
    (\<Union>kg \<in> {(key, guard). gm_get (guards ctx) key = Some guard}. exported_reports ctx kg)"
  using checkExportedGuardedFields_reports by blast

text \<open>C31. A function is taken for a helper that returns with a lock held exactly when the leak candidates for that
  lock have as many different return positions as the function has return instructions (at least one).\<close>

theorem acquire_helpers_exact:
  assumes "gm_ok (lockLeakCandidates ctx)"
  shows "mfk \<in> set (ReturnsHolding (factsOf (computeReturnsHolding ctx) fn)) \<longleftrightarrow>
    mfk \<in> set (ReturnsHolding (factsOf ctx fn)) \<or>
    0 < returnCount ctx fn \<and> card (leak_positions ctx fn mfk) = returnCount ctx fn"
  by (rule computeReturnsHolding_spec [OF assms])

theorem acquire_helpers_exact_witness: "ex_mu \<in> set (ReturnsHolding (factsOf (computeReturnsHolding ex_leaky) 5))"
proof -
  have ok: "gm_ok (lockLeakCandidates ex_leaky)" by (simp add: ex_leaky_def gm_ok_def)
  have "leak_positions ex_leaky 5 ex_mu = {43}"
    using ex_leak_key by (auto simp: leak_positions_def leak_candidates_def ex_leaky_def gm_slice_def gm_get_def ex_leak_def split: if_splits)
  moreover have "returnCount ex_leaky 5 = 1" by code_simp
  ultimately show ?thesis using acquire_helpers_exact [OF ok] by simp
qed

text \<open>C32. What the check of acquire helpers reports is exactly: every function that returns with a lock held, once
  per lock, and every call of one by a function that neither releases that lock nor returns with it itself.\<close>

theorem acquire_helper_reports_exact:
  assumes "gm_ok (funcFacts ctx)"
  shows "same_facts ctx (checkCallersOfAcquireHelpers ctx) \<and>
    set (diagnostics (checkCallersOfAcquireHelpers ctx)) = set (diagnostics ctx) \<union> helper_reports ctx \<union>
      (\<Union>cs \<in> set (callSites ctx). release_reports ctx cs)"
  using checkCallersOfAcquireHelpers_reports [OF assms] by blast

theorem acquire_helper_reports_exact_witness:
  "{(9, AcquireHelper ''inc'' ''S.mu''), (20, CallerMissingUnlock ''top'' ''inc'' ''S.mu'')} \<subseteq>
    set (diagnostics (checkCallersOfAcquireHelpers ex_helper))"
proof -
  have ok: "gm_ok (funcFacts ex_helper)" by (simp add: ex_helper_def gm_ok_def)
  have "(9, AcquireHelper ''inc'' ''S.mu'') \<in> helper_reports ex_helper"
    unfolding helper_reports_def
    by (rule UN_I [of 0], simp, rule UN_I [of ex_mu]) (simp_all add: ex_helper_reports)
  moreover have "ex_site \<in> set (callSites ex_helper)"
    "(20, CallerMissingUnlock ''top'' ''inc'' ''S.mu'') \<in> release_reports ex_helper ex_site"
    by (simp_all add: release_reports_def ex_helper_reports)
  ultimately show ?thesis unfolding acquire_helper_reports_exact [OF ok, THEN conjunct2] by blast
qed


section \<open>Facts between packages\<close>



text \<open>C35. A guard survives the way from one package to another: what package \<open>a\<close> knows of a field of an exported
  struct is what package \<open>b\<close>, which gets the facts of \<open>a\<close> and accesses that struct, knows of it after the
  import, needs-exclusive flag included.\<close>

theorem guards_travel:
  assumes "hands_over_types a b"
    and "gm_ok (guards a)" and "exportedType a n" and "gm_get (guards a) (field_key n i) = Some g"
    and "inj_on (\<lambda>n. objIdent (named_at (prog_of a) n)) (set (gm_keys (guardsByType a)))"
    and "objIdent (named_at (prog_of b) m) = objIdent (named_at (prog_of a) n)"
    and "obj_pkg (prog_of b) m \<noteq> Some (passPkg (pass b))"
    and "\<exists>key \<in> set (gm_keys (observations b)). fk_StructType key = m"
  shows "gm_get (guards (importFieldGuardFacts b)) (field_key m i) = Some g"
  by (rule guard_handed_over [OF assms])

theorem guards_travel_witness: "gm_get (guards (importFieldGuardFacts ex_importer)) (field_key 0 1) = Some ex_guard"
proof (rule guards_travel [where a = ex_exporter and n = 0])
  show "hands_over_types ex_exporter ex_importer"
    by (simp add: hands_over_types_def) (simp add: ex_importer_def newPassContext_def)
  show "gm_get (guards ex_exporter) (field_key 0 1) = Some ex_guard" by (simp add: gm_get_def field_key_def ex_n_def)
  show "\<exists>key \<in> set (gm_keys (observations ex_importer)). fk_StructType key = 0" by (simp add: gm_keys_def ex_n_def)
qed (simp_all add: ex_exchange_facts gm_ok_def)

text \<open>C36. So do the locks of functions: the mutexes that an exported function of package \<open>a\<close> requires, acquires
  (itself or through calls) or returns with are added, as far as package \<open>b\<close> can resolve them, to the facts of
  that function in package \<open>b\<close>, which calls it.\<close>

theorem function_locks_travel:
  assumes "gm_ok (funcFacts a)" and "gm_get (funcFacts a) fn = Some facts" and "exportable a fn = Some obj"
    and "Requires facts \<noteq> [] \<or> Acquires facts \<noteq> [] \<or> AcquiresTransitive facts \<noteq> [] \<or> ReturnsHolding facts \<noteq> []"
    and "\<forall>g obj'. g \<in> set (gm_keys (funcFacts a)) \<longrightarrow> exportable a g = Some obj' \<longrightarrow> foIdent obj' = foIdent obj \<longrightarrow> g = fn"
    and "ImportFuncFact (pass b) = gm_get (exportedFuncFacts (exportFuncLockFacts a))"
    and "callee \<in> Callee ` set (callSites b)" and "fnObject (func_at (prog_of b) callee) = Some obj'"
    and "foIdent obj' = foIdent obj" and "foPkg obj' \<noteq> Some (passPkg (pass b))"
  shows "set (Requires (factsOf (importFuncLockFacts b) callee)) =
      set (Requires (factsOf b callee)) \<union> {k'. \<exists>k \<in> set (Requires facts). same_mutex a b k k'} \<and>
    set (Acquires (factsOf (importFuncLockFacts b) callee)) =
      set (Acquires (factsOf b callee)) \<union> {k'. \<exists>k \<in> set (Acquires facts). same_mutex a b k k'} \<and>
    set (AcquiresTransitive (factsOf (importFuncLockFacts b) callee)) =
      set (AcquiresTransitive (factsOf b callee)) \<union> {k'. \<exists>k \<in> set (AcquiresTransitive facts). same_mutex a b k k'} \<and>
    set (ReturnsHolding (factsOf (importFuncLockFacts b) callee)) =
      set (ReturnsHolding (factsOf b callee)) \<union> {k'. \<exists>k \<in> set (ReturnsHolding facts). same_mutex a b k k'}"
  by (intro conjI func_facts_handed_over [OF assms])

theorem function_locks_travel_witness: "ex_mu \<in> set (Requires (factsOf (importFuncLockFacts ex_importer) 3))"
proof -
  obtain obj where obj: "exportable ex_exporter 3 = Some obj" "foIdent obj = 3"
    using ex_exchange_facts(4) by auto
  obtain obj' where obj': "fnObject (func_at ex_prog 3) = Some obj'" "foIdent obj' = 3" "foPkg obj' = Some 0"
    by (simp add: ex_top_def)
  have one: "\<forall>g o'. g \<in> set (gm_keys (funcFacts ex_exporter)) \<longrightarrow> exportable ex_exporter g = Some o' \<longrightarrow>
      foIdent o' = foIdent obj \<longrightarrow> g = 3" by (simp add: gm_keys_def)
  have get: "gm_get (funcFacts ex_exporter) 3 = Some ex_top_facts" "Requires ex_top_facts = [ex_mu]"
    by (simp_all add: gm_get_def ex_top_facts_def)
  have "gm_ok (funcFacts ex_exporter)" "3 \<in> Callee ` set (callSites ex_importer)"
    "ImportFuncFact (pass ex_importer) = gm_get (exportedFuncFacts (exportFuncLockFacts ex_exporter))"
    by (simp_all add: gm_ok_def) (simp add: ex_importer_def newPassContext_def)
  then show ?thesis
    using function_locks_travel [OF _ get(1) obj(1) _ one, where b = ex_importer and callee = 3 and obj' = obj']
      obj obj' get(2) ex_exchange_facts(5) by auto
qed

section \<open>Annotations\<close>

text \<open>C37. After the comments are parsed, a diagnostic in a function at a position is suppressed exactly when a
  \<open>//mu:ignore\<close> comment belongs to the function or a \<open>//mu:nolint\<close> comment is on the line before.\<close>

theorem suppression_exact:
  "isSuppressed (parseAnnotations ctx) fn p \<longleftrightarrow>
    annotates ctx ''mu:ignore'' fn \<or>
    (IsValid p \<and> suppresses_line ctx (Filename (Fset (pass ctx) p)) (Line (Fset (pass ctx) p)))"
  by (rule isSuppressed_parsed)

section \<open>Lock states and values\<close>

text \<open>C38. Merging two lock states keeps exactly the locks held in both in the same mode, as the first state has
  them, and the unlocks deferred in both; the result is well-formed.\<close>

theorem merge_exact:
  assumes "ls_ok a" and "ls_ok b"
  shows "ls_ok (intersect a b) \<and>
    gm_get (held (intersect a b)) k = (case (gm_get (held a) k, gm_get (held b) k) of
        (Some h, Some h') \<Rightarrow> if hl_exclusive h = hl_exclusive h' then Some h else None
      | _ \<Rightarrow> None) \<and>
    set (deferredUnlocks (intersect a b)) = set (deferredUnlocks a) \<inter> set (deferredUnlocks b)"
  using assms by (auto simp: get_intersect same_mode_def deferred_intersect split: option.splits)

theorem merge_exact_witness: "gm_get (held (intersect ex_held newLockState)) ex_lock = None"
proof -
  have "ls_ok ex_held" by (simp add: ex_held_def)
  from merge_exact [OF this ls_ok_new, of ex_lock] show ?thesis by (auto simp: newLockState_def split: option.splits)
qed

text \<open>C39. The comparison by which the walk decides that nothing changed holds exactly when the two states hold the
  same locks and have the same deferred unlocks. The modes of the locks are not compared.\<close>

theorem same_state_iff:
  assumes "ls_ok a" and "ls_ok b"
  shows "equalHeld a b \<longleftrightarrow> held_keys a = held_keys b \<and> set (deferredUnlocks a) = set (deferredUnlocks b)"
  using equalHeld_iff [OF assms] by (auto simp: ls_le_def)

theorem same_state_iff_witness: "equalHeld ex_held (lock newLockState ex_lock False 99)"
proof -
  have "ls_ok ex_held" "ls_ok (lock newLockState ex_lock False 99)" by (simp_all add: ex_held_def)
  from same_state_iff [OF this] show ?thesis by (simp add: ex_held_def held_keys_lock)
qed

text \<open>C40. Resolving a value never changes what it may be: the values that a chain of Phi edges can deliver are the same
  before and after looking through Phi instructions. The base of a lock is independent of how it is reached: if
  following loads (and Phi instructions with a single value) from a value ends somewhere, that is the base, so a
  captured variable and the pointer stored in it name the same lock.\<close>

theorem resolving_keeps_values:
  "sources P (unwrapSSAValue P v) = sources P v \<and>
   (\<forall>a n w. kind_of P v = UnOp MUL a \<longrightarrow> deref_in P n (unwrapSSAValue P a) w \<longrightarrow>
     canonicalizeBase P v = w \<and> canonicalizeBase P a = w)"
  by (intro conjI allI impI sources_unwrapSSAValue) (erule (1) canonicalizeBase_load, erule canonicalizeBase_end)

theorem resolving_keeps_values_witness: "canonicalizeBase ex_loads 1 = 0 \<and> canonicalizeBase ex_loads 0 = 0"
proof -
  have "kind_of ex_loads 1 = UnOp MUL 0" "kind_of ex_loads 0 = OtherValue" "unwrapSSAValue ex_loads 0 = 0"
    by code_simp+
  moreover from this have "deref_in ex_loads 0 (unwrapSSAValue ex_loads 0) 0" by (simp add: deref_stop)
  ultimately show ?thesis using resolving_keeps_values [of ex_loads 1, THEN conjunct2, rule_format, of 0 0 0] by simp
qed

end
